theory Spec2Isabelle
  imports Complex_Main "HOL-Library.Word"
begin

unbundle bit_operations_syntax

section \<open>Values of the source language\<close>

text \<open>
  An \<^verbatim>\<open>ArrayBuffer\<close> is a list of bytes, an \<^verbatim>\<open>Int16Array\<close> a list of 16-bit words.
  Typed-array views are read in little-endian byte order, as on every platform the service
  is built for.
\<close>

type_synonym byte = "8 word"
type_synonym int16 = "16 word"

text \<open>
  A JavaScript \<^verbatim>\<open>number\<close> that results from floating-point arithmetic. Finite values are
  idealised as reals (rounding is not modelled); the two infinities and NaN are kept, since
  division by zero yields them instead of raising. Zero carries no sign: every zero divisor
  that occurs in the modelled code is \<^verbatim>\<open>+0\<close>.
\<close>

datatype jsnum = Num real | PosInf | NegInf | NaN

fun js_neg :: "jsnum \<Rightarrow> jsnum" where
  "js_neg (Num a) = Num (- a)"
| "js_neg PosInf = NegInf"
| "js_neg NegInf = PosInf"
| "js_neg NaN = NaN"

fun js_add :: "jsnum \<Rightarrow> jsnum \<Rightarrow> jsnum" where
  "js_add (Num a) (Num b) = Num (a + b)"
| "js_add NaN _ = NaN"
| "js_add _ NaN = NaN"
| "js_add PosInf NegInf = NaN"
| "js_add NegInf PosInf = NaN"
| "js_add PosInf _ = PosInf"
| "js_add _ PosInf = PosInf"
| "js_add NegInf _ = NegInf"
| "js_add _ NegInf = NegInf"

definition js_sub :: "jsnum \<Rightarrow> jsnum \<Rightarrow> jsnum" where
  "js_sub a b = js_add a (js_neg b)"

fun js_mul :: "jsnum \<Rightarrow> jsnum \<Rightarrow> jsnum" where
  "js_mul (Num a) (Num b) = Num (a * b)"
| "js_mul NaN _ = NaN"
| "js_mul _ NaN = NaN"
| "js_mul PosInf (Num b) = (if b = 0 then NaN else if 0 < b then PosInf else NegInf)"
| "js_mul NegInf (Num b) = (if b = 0 then NaN else if 0 < b then NegInf else PosInf)"
| "js_mul (Num a) PosInf = (if a = 0 then NaN else if 0 < a then PosInf else NegInf)"
| "js_mul (Num a) NegInf = (if a = 0 then NaN else if 0 < a then NegInf else PosInf)"
| "js_mul PosInf PosInf = PosInf"
| "js_mul NegInf NegInf = PosInf"
| "js_mul PosInf NegInf = NegInf"
| "js_mul NegInf PosInf = NegInf"

fun js_div :: "jsnum \<Rightarrow> jsnum \<Rightarrow> jsnum" where
  "js_div (Num a) (Num b) =
     (if b \<noteq> 0 then Num (a / b)
      else if a = 0 then NaN else if 0 < a then PosInf else NegInf)"
| "js_div NaN _ = NaN"
| "js_div _ NaN = NaN"
| "js_div (Num a) PosInf = Num 0"
| "js_div (Num a) NegInf = Num 0"
| "js_div PosInf (Num b) = (if 0 \<le> b then PosInf else NegInf)"
| "js_div NegInf (Num b) = (if 0 \<le> b then NegInf else PosInf)"
| "js_div PosInf PosInf = NaN"
| "js_div PosInf NegInf = NaN"
| "js_div NegInf PosInf = NaN"
| "js_div NegInf NegInf = NaN"

text \<open>The comparison \<^verbatim>\<open>a >= b\<close>; every comparison with NaN is false.\<close>

fun js_ge :: "jsnum \<Rightarrow> jsnum \<Rightarrow> bool" where
  "js_ge (Num a) (Num b) = (b \<le> a)"
| "js_ge NaN _ = False"
| "js_ge _ NaN = False"
| "js_ge PosInf _ = True"
| "js_ge _ NegInf = True"
| "js_ge (Num a) PosInf = False"
| "js_ge NegInf (Num b) = False"
| "js_ge NegInf PosInf = False"

text \<open>
  Exceptions. The first five are the \<^verbatim>\<open>Error\<close>s that \<^verbatim>\<open>parseWAVHeader\<close> throws itself:
  \<^item> \<open>MissingRIFF\<close>: "Invalid WAV file: missing RIFF header"
  \<^item> \<open>NotWAVE\<close>: "Invalid WAV file: not WAVE format"
  \<^item> \<open>UnsupportedFormat\<close>: "Unsupported WAV format: only PCM is supported"
  \<^item> \<open>UnsupportedBitDepth\<close>: "Unsupported bit depth: only 16-bit is supported"
  \<^item> \<open>NoDataChunk\<close>: "Invalid WAV file: no data chunk found"

  \<open>RangeError\<close> is what the runtime raises for a \<^verbatim>\<open>DataView\<close> read outside the buffer, a
  typed-array view over a byte range of the wrong length, and a \<^verbatim>\<open>set\<close> that does not fit.
  \<open>VADError\<close> is a failure of the classifier on one frame.
\<close>

datatype error =
    MissingRIFF | NotWAVE | UnsupportedFormat | UnsupportedBitDepth | NoDataChunk
  | RangeError | VADError

text \<open>
  Sequencing of steps that may throw: the first exception ends the computation. The
  congruence rule lets the function package see the recursive calls under \<open>andThen\<close>.
\<close>

definition andThen :: "error + 'a \<Rightarrow> ('a \<Rightarrow> error + 'b) \<Rightarrow> error + 'b" where
  "andThen m f = (case m of Inl e \<Rightarrow> Inl e | Inr x \<Rightarrow> f x)"

lemma andThen_cong [fundef_cong]:
  "m = m' \<Longrightarrow> (\<And>x. m' = Inr x \<Longrightarrow> f x = f' x) \<Longrightarrow> andThen m f = andThen m' f'"
  by (auto simp: andThen_def split: sum.splits)

subsection \<open>DataView reads and writes\<close>

definition getUint8 :: "byte list \<Rightarrow> nat \<Rightarrow> error + nat" where
  "getUint8 view i = (if i < length view then Inr (unat (view ! i)) else Inl RangeError)"

text \<open>Little-endian reads (\<^verbatim>\<open>littleEndian = true\<close> at every call site).\<close>

definition getUint16 :: "byte list \<Rightarrow> nat \<Rightarrow> error + nat" where
  "getUint16 view i =
     (if i + 2 \<le> length view
      then Inr (unat (view ! i) + 256 * unat (view ! (i + 1)))
      else Inl RangeError)"

definition getUint32 :: "byte list \<Rightarrow> nat \<Rightarrow> error + nat" where
  "getUint32 view i =
     (if i + 4 \<le> length view
      then Inr (unat (view ! i) + 256 * unat (view ! (i + 1))
                + 65536 * unat (view ! (i + 2)) + 16777216 * unat (view ! (i + 3)))
      else Inl RangeError)"

text \<open>
  The bytes a little-endian \<^verbatim>\<open>setUint16\<close> / \<^verbatim>\<open>setUint32\<close> stores: the value is reduced
  modulo \<open>2^16\<close> / \<open>2^32\<close> (ToUint16, ToUint32), since each byte keeps eight bits.
\<close>

definition setUint16 :: "nat \<Rightarrow> byte list" where
  "setUint16 v = [of_nat v, of_nat (v div 256)]"

definition setUint32 :: "nat \<Rightarrow> byte list" where
  "setUint32 v = [of_nat v, of_nat (v div 256), of_nat (v div 65536), of_nat (v div 16777216)]"

text \<open>The character codes of a four-character tag, as \<^verbatim>\<open>String.fromCharCode\<close> compares them.\<close>

definition charCodes :: "string \<Rightarrow> nat list" where
  "charCodes s = map of_char s"

definition getChunkId :: "byte list \<Rightarrow> nat \<Rightarrow> error + nat list" where
  "getChunkId view i =
     andThen (getUint8 view i) (\<lambda>a.
     andThen (getUint8 view (i + 1)) (\<lambda>b.
     andThen (getUint8 view (i + 2)) (\<lambda>c.
     andThen (getUint8 view (i + 3)) (\<lambda>d. Inr [a, b, c, d]))))"

text \<open>\<^verbatim>\<open>slice(begin, end)\<close> of an ArrayBuffer or typed array, for non-negative arguments.\<close>

definition slice :: "'a list \<Rightarrow> nat \<Rightarrow> nat \<Rightarrow> 'a list" where
  "slice xs b e = take (e - b) (drop b xs)"

subsection \<open>Int16Array views\<close>

definition int16ToBytes :: "int16 \<Rightarrow> byte list" where
  "int16ToBytes s = [ucast s, ucast (drop_bit 8 s)]"

definition bytesToInt16 :: "byte \<Rightarrow> byte \<Rightarrow> int16" where
  "bytesToInt16 lo hi = ucast lo OR push_bit 8 (ucast hi)"

fun int16s :: "byte list \<Rightarrow> int16 list" where
  "int16s (lo # hi # rest) = bytesToInt16 lo hi # int16s rest"
| "int16s _ = []"

text \<open>\<^verbatim>\<open>new Int16Array(arrayBuffer)\<close>: the byte length must be a multiple of 2.\<close>

definition newInt16Array :: "byte list \<Rightarrow> error + int16 list" where
  "newInt16Array bytes = (if length bytes mod 2 = 0 then Inr (int16s bytes) else Inl RangeError)"

section \<open>The container codec (lib/audio/audio-service.ts)\<close>

definition nextOffset :: "nat \<Rightarrow> nat \<Rightarrow> nat" where
  "nextOffset offset chunkSize = offset + 8 + chunkSize + (if chunkSize mod 2 = 1 then 1 else 0)"

text \<open>
  The chunk loop of \<^verbatim>\<open>parseWAVHeader\<close>, started at \<open>offset = 12\<close> with
  \<open>sampleRate = channels = bitsPerSample = 0\<close>. It returns the locals
  \<open>(dataOffset, dataSize, sampleRate, channels, bitsPerSample)\<close> as they stand after the loop;
  \<open>dataOffset = -1\<close> when the loop condition failed before a data chunk was seen.
\<close>

function parseChunks ::
  "byte list \<Rightarrow> nat \<Rightarrow> nat \<Rightarrow> nat \<Rightarrow> nat \<Rightarrow> error + (int \<times> nat \<times> nat \<times> nat \<times> nat)" where
  "parseChunks buffer offset sampleRate channels bitsPerSample =
    (if int offset < int (length buffer) - 8 then
       andThen (getChunkId buffer offset) (\<lambda>chunkId.
       andThen (getUint32 buffer (offset + 4)) (\<lambda>chunkSize.
         if chunkId = charCodes ''fmt '' then
           andThen (getUint16 buffer (offset + 8)) (\<lambda>audioFormat.
           andThen (getUint16 buffer (offset + 10)) (\<lambda>channels'.
           andThen (getUint32 buffer (offset + 12)) (\<lambda>sampleRate'.
           andThen (getUint16 buffer (offset + 22)) (\<lambda>bitsPerSample'.
             if audioFormat \<noteq> 1 then Inl UnsupportedFormat
             else if bitsPerSample' \<noteq> 16 then Inl UnsupportedBitDepth
             else parseChunks buffer (nextOffset offset chunkSize)
                    sampleRate' channels' bitsPerSample'))))
         else if chunkId = charCodes ''data'' then
           Inr (int (offset + 8), chunkSize, sampleRate, channels, bitsPerSample)
         else parseChunks buffer (nextOffset offset chunkSize)
                sampleRate channels bitsPerSample))
     else Inr (- 1, 0, sampleRate, channels, bitsPerSample))"
  by pat_completeness auto
termination
  by (relation "measure (\<lambda>(buffer, offset, _). length buffer - offset)")
     (auto simp: nextOffset_def)

declare parseChunks.simps [simp del]

record WAVInfo =
  sampleRate :: nat
  channels :: nat
  bitsPerSample :: nat
  dataOffset :: nat
  dataSize :: nat
  totalSamples :: jsnum
  samplesPerChannel :: jsnum

definition parseWAVHeader :: "byte list \<Rightarrow> error + WAVInfo" where
  "parseWAVHeader buffer =
     andThen (getChunkId buffer 0) (\<lambda>riffHeader.
       if riffHeader \<noteq> charCodes ''RIFF'' then Inl MissingRIFF else
     andThen (getChunkId buffer 8) (\<lambda>waveHeader.
       if waveHeader \<noteq> charCodes ''WAVE'' then Inl NotWAVE else
     andThen (parseChunks buffer 12 0 0 0) (\<lambda>(dataOffset, dataSize, sampleRate, channels, bitsPerSample).
       if dataOffset = - 1 then Inl NoDataChunk else
       Inr \<lparr> sampleRate = sampleRate,
             channels = channels,
             bitsPerSample = bitsPerSample,
             dataOffset = nat dataOffset,
             dataSize = dataSize,
             totalSamples =
               js_div (Num (real dataSize)) (js_div (Num (real bitsPerSample)) (Num 8)),
             samplesPerChannel =
               js_div (js_div (Num (real dataSize)) (js_div (Num (real bitsPerSample)) (Num 8)))
                      (Num (real channels)) \<rparr>)))"

definition extractMonoAudio :: "byte list \<Rightarrow> WAVInfo \<Rightarrow> error + int16 list" where
  "extractMonoAudio buffer wavInfo =
     (let audioBuffer = slice buffer (dataOffset wavInfo) (dataOffset wavInfo + dataSize wavInfo)
      in andThen (newInt16Array audioBuffer) (\<lambda>rawAudioData.
           if channels wavInfo > 1 then
             let samplesPerChannel = length rawAudioData div channels wavInfo
             in Inr (map (\<lambda>i. rawAudioData ! (i * channels wavInfo)) [0..<samplesPerChannel])
           else Inr rawAudioData))"

text \<open>
  \<^verbatim>\<open>createWAVBuffer\<close>: the 44 header bytes in the order of their offsets
  (0, 4, 8, 12, 16, 20, 22, 24, 28, 32, 34, 36, 40), then the samples through the
  \<^verbatim>\<open>Int16Array\<close> view at offset 44.
\<close>

definition createWAVBuffer :: "int16 list \<Rightarrow> nat \<Rightarrow> nat \<Rightarrow> byte list" where
  "createWAVBuffer audioData rate nchannels =
     (let bitsPerSample = 16 :: nat;
          bytesPerSample = bitsPerSample div 8;
          dataSize = length audioData * bytesPerSample;
          headerSize = 44 :: nat;
          totalSize = headerSize + dataSize
      in [0x52, 0x49, 0x46, 0x46] @ setUint32 (totalSize - 8)
         @ [0x57, 0x41, 0x56, 0x45]
         @ [0x66, 0x6D, 0x74, 0x20] @ setUint32 16
         @ setUint16 1
         @ setUint16 nchannels
         @ setUint32 rate
         @ setUint32 (rate * nchannels * bytesPerSample)
         @ setUint16 (nchannels * bytesPerSample)
         @ setUint16 bitsPerSample
         @ [0x64, 0x61, 0x74, 0x61] @ setUint32 dataSize
         @ concat (map int16ToBytes audioData))"

text \<open>
  The sub-chunks that the walk of \<^verbatim>\<open>parseWAVHeader\<close> visits, by layout alone: the tag at
  \<open>offset\<close>, the little-endian size at \<open>offset + 4\<close>, the next sub-chunk at
  \<open>offset + 8 + size\<close>, one further when the size is odd. As in the loop, a sub-chunk is
  visited while \<open>offset < byteLength - 8\<close>, and the first data sub-chunk ends the walk.
  \<open>chunkIds buffer 12\<close> lists the tags visited, in order.
\<close>

definition tagAt :: "byte list \<Rightarrow> nat \<Rightarrow> nat list" where
  "tagAt buffer offset =
     [unat (buffer ! offset), unat (buffer ! (offset + 1)),
      unat (buffer ! (offset + 2)), unat (buffer ! (offset + 3))]"

definition sizeAt :: "byte list \<Rightarrow> nat \<Rightarrow> nat" where
  "sizeAt buffer offset =
     unat (buffer ! (offset + 4)) + 256 * unat (buffer ! (offset + 5))
     + 65536 * unat (buffer ! (offset + 6)) + 16777216 * unat (buffer ! (offset + 7))"

function chunkIds :: "byte list \<Rightarrow> nat \<Rightarrow> nat list list" where
  "chunkIds buffer offset =
     (if offset + 8 < length buffer then
        (if tagAt buffer offset = charCodes ''data'' then [tagAt buffer offset]
         else tagAt buffer offset # chunkIds buffer (nextOffset offset (sizeAt buffer offset)))
      else [])"
  by pat_completeness auto
termination
  by (relation "measure (\<lambda>(buffer, offset). length buffer - offset)")
     (auto simp: nextOffset_def)

declare chunkIds.simps [simp del]

text \<open>
  The offsets of the fmt sub-chunks on that walk, and two conditions on them: that each lies
  in the buffer with the 24 bytes the parser reads of it (tag, size, and the format fields up
  to \<open>bitsPerSample\<close> at \<open>offset + 22\<close>), and that each moreover declares linear PCM
  (\<open>audioFormat = 1\<close>) with 16 bits per sample.
\<close>

definition u16At :: "byte list \<Rightarrow> nat \<Rightarrow> nat" where
  "u16At buffer i = unat (buffer ! i) + 256 * unat (buffer ! (i + 1))"

function fmtOffsets :: "byte list \<Rightarrow> nat \<Rightarrow> nat list" where
  "fmtOffsets buffer offset =
     (if offset + 8 < length buffer then
        (if tagAt buffer offset = charCodes ''data'' then []
         else (if tagAt buffer offset = charCodes ''fmt '' then [offset] else [])
              @ fmtOffsets buffer (nextOffset offset (sizeAt buffer offset)))
      else [])"
  by pat_completeness auto
termination
  by (relation "measure (\<lambda>(buffer, offset). length buffer - offset)")
     (auto simp: nextOffset_def)

declare fmtOffsets.simps [simp del]

definition fmtChunksInside :: "byte list \<Rightarrow> bool" where
  "fmtChunksInside buffer = list_all (\<lambda>offset. offset + 24 \<le> length buffer) (fmtOffsets buffer 12)"

definition fmtChunksPCM16 :: "byte list \<Rightarrow> bool" where
  "fmtChunksPCM16 buffer =
     list_all (\<lambda>offset. offset + 24 \<le> length buffer
                        \<and> u16At buffer (offset + 8) = 1 \<and> u16At buffer (offset + 22) = 16)
       (fmtOffsets buffer 12)"

text \<open>
  The format errors: the exceptions that \<^verbatim>\<open>parseWAVHeader\<close> throws itself, as opposed to
  those of the runtime.
\<close>

definition isFormatError :: "error \<Rightarrow> bool" where
  "isFormatError e \<longleftrightarrow>
     e = MissingRIFF \<or> e = NotWAVE \<or> e = UnsupportedFormat \<or> e = UnsupportedBitDepth
     \<or> e = NoDataChunk"

text \<open>
  Decoding a container to its samples: \<^verbatim>\<open>parseWAVHeader\<close>, then \<^verbatim>\<open>extractMonoAudio\<close> with
  the header it returned, as \<^verbatim>\<open>extractSpeechSegments\<close> and the route handlers chain them.
\<close>

definition decodeWAV :: "byte list \<Rightarrow> error + int16 list" where
  "decodeWAV buffer = andThen (parseWAVHeader buffer) (\<lambda>wavInfo. extractMonoAudio buffer wavInfo)"

section \<open>Frames and segments\<close>

text \<open>
  The result of \<^verbatim>\<open>processAudioFrame\<close> (\<^verbatim>\<open>VADResult\<close> of lib/vad/vadLoader.ts). The classifier is
  an external WebAssembly module with state of its own; it is a parameter of the model. It is
  called once per frame, in order, so its answer is a function of the frame index and the
  frame's samples; \<open>Inl\<close> is a call that throws.
\<close>

record FrameResult =
  probability :: jsnum
  isSpeech :: bool

type_synonym classifier = "nat \<Rightarrow> int16 list \<Rightarrow> error + FrameResult"

text \<open>\<^verbatim>\<open>filterSpeechSegments\<close>, \<^verbatim>\<open>mergeAudioSegments\<close> and the segment type they work on (its fields
  \<open>isSpeech\<close> and \<open>probability\<close> are the unqualified ones from here on).\<close>

record AudioSegment =
  startFrame :: nat
  endFrame :: nat
  startTime :: jsnum
  endTime :: jsnum
  data :: "int16 list"
  isSpeech :: bool
  probability :: jsnum

definition filterSpeechSegments :: "AudioSegment list \<Rightarrow> jsnum \<Rightarrow> jsnum \<Rightarrow> AudioSegment list" where
  "filterSpeechSegments segments minDurationMs minProbability =
     filter (\<lambda>segment.
       let durationMs = js_mul (js_sub (endTime segment) (startTime segment)) (Num 1000)
       in isSpeech segment \<and> js_ge durationMs minDurationMs
          \<and> js_ge (probability segment) minProbability) segments"

text \<open>\<^verbatim>\<open>target.set(source, offset)\<close> on typed arrays: a RangeError when the source does not fit.\<close>

definition typedSet :: "'a list \<Rightarrow> 'a list \<Rightarrow> nat \<Rightarrow> error + 'a list" where
  "typedSet target source offset =
     (if offset + length source \<le> length target
      then Inr (take offset target @ source @ drop (offset + length source) target)
      else Inl RangeError)"

text \<open>The \<^verbatim>\<open>for (const segment of segments)\<close> loop of \<^verbatim>\<open>mergeAudioSegments\<close>.\<close>

fun mergeLoop :: "AudioSegment list \<Rightarrow> int16 list \<Rightarrow> nat \<Rightarrow> error + int16 list" where
  "mergeLoop [] mergedData offset = Inr mergedData"
| "mergeLoop (segment # rest) mergedData offset =
     (case typedSet mergedData (data segment) offset of
        Inl e \<Rightarrow> Inl e
      | Inr mergedData' \<Rightarrow> mergeLoop rest mergedData' (offset + length (data segment)))"

definition mergeAudioSegments :: "AudioSegment list \<Rightarrow> error + int16 list" where
  "mergeAudioSegments segments =
     (if length segments = 0 then Inr []
      else
        let totalLength = foldl (\<lambda>sum segment. sum + length (data segment)) 0 segments;
            mergedData = replicate totalLength 0
        in mergeLoop segments mergedData 0)"

section \<open>The VAD service (services/vad-service.ts)\<close>

text \<open>\<^verbatim>\<open>VAD_CONFIG.HOP_SIZE\<close> of lib/vad/vadLoader.ts.\<close>

definition HOP_SIZE :: nat where
  "HOP_SIZE = 256"

text \<open>
  The locals that the frame loop of \<^verbatim>\<open>processAudioWithVAD\<close> updates:
  \<open>(speechFrames, totalProbability, segments, currentSegment)\<close>.
\<close>

type_synonym vad_locals = "nat \<times> jsnum \<times> AudioSegment list \<times> AudioSegment option"

text \<open>
  One iteration of the loop, for frame \<open>i\<close>. The padding block stands before the \<^verbatim>\<open>try\<close>, so
  a RangeError of its \<^verbatim>\<open>set\<close> calls leaves the function; an exception of the classifier is
  caught and leaves the locals as they were. Extending a segment allocates a new array and
  copies the old data and the frame into it, which is the concatenation.
\<close>

definition frameBody :: "classifier \<Rightarrow> int16 list \<Rightarrow> nat \<Rightarrow> nat \<Rightarrow> vad_locals \<Rightarrow> error + vad_locals" where
  "frameBody classify audioData rate i =
     (\<lambda>(speechFrames, totalProbability, segments, currentSegment).
       let frameStart = i * HOP_SIZE;
           frameEnd = min (frameStart + HOP_SIZE) (length audioData);
           frameData = slice audioData frameStart frameEnd
       in andThen
            (if length frameData < HOP_SIZE then
               andThen (typedSet (replicate HOP_SIZE 0) frameData 0) (\<lambda>paddedFrame.
                 typedSet frameData paddedFrame 0)
             else Inr frameData) (\<lambda>frameData.
          case classify i frameData of
            Inl error \<Rightarrow> Inr (speechFrames, totalProbability, segments, currentSegment)
          | Inr result \<Rightarrow>
              let totalProbability = js_add totalProbability (FrameResult.probability result);
                  frameTime = js_div (Num (real frameStart)) (Num (real rate))
              in if FrameResult.isSpeech result then
                   (case currentSegment of
                      None \<Rightarrow>
                        Inr (speechFrames + 1, totalProbability, segments,
                             Some \<lparr> startFrame = frameStart,
                                    endFrame = frameEnd,
                                    startTime = frameTime,
                                    endTime = js_add frameTime
                                                (js_div (Num (real HOP_SIZE)) (Num (real rate))),
                                    data = frameData,
                                    isSpeech = True,
                                    probability = FrameResult.probability result \<rparr>)
                    | Some cur \<Rightarrow>
                        Inr (speechFrames + 1, totalProbability, segments,
                             Some (cur \<lparr> endFrame := frameEnd,
                                         endTime := js_add frameTime
                                                     (js_div (Num (real HOP_SIZE)) (Num (real rate))),
                                         data := data cur @ frameData,
                                         probability :=
                                           js_div (js_add (AudioSegment.probability cur)
                                                          (FrameResult.probability result))
                                                  (Num 2) \<rparr>)))
                 else
                   (case currentSegment of
                      Some cur \<Rightarrow> Inr (speechFrames, totalProbability, segments @ [cur], None)
                    | None \<Rightarrow> Inr (speechFrames, totalProbability, segments, None))))"

text \<open>\<^verbatim>\<open>for (let i = 0; i < frameCount; i++)\<close>, entered at \<open>i\<close>.\<close>

function frameLoop ::
  "classifier \<Rightarrow> int16 list \<Rightarrow> nat \<Rightarrow> nat \<Rightarrow> nat \<Rightarrow> vad_locals \<Rightarrow> error + vad_locals" where
  "frameLoop classify audioData rate frameCount i locals =
     (if i < frameCount then
        (case frameBody classify audioData rate i locals of
           Inl e \<Rightarrow> Inl e
         | Inr locals' \<Rightarrow> frameLoop classify audioData rate frameCount (i + 1) locals')
      else Inr locals)"
  by pat_completeness auto
termination
  by (relation "measure (\<lambda>(classify, audioData, rate, frameCount, i, locals). frameCount - i)") auto

declare frameLoop.simps [simp del]

text \<open>
  Frame \<open>i\<close> of the input: the 256 samples from \<open>i * HOP_SIZE\<close> on.
\<close>

definition frameAt :: "int16 list \<Rightarrow> nat \<Rightarrow> int16 list" where
  "frameAt audioData i = take HOP_SIZE (drop (i * HOP_SIZE) audioData)"

text \<open>
  The sequence of per-frame classification results for the first \<open>n\<close> frames: the answers of
  the classifier in frame order, without the frames on which it threw.
\<close>

fun successes :: "(error + 'a) list \<Rightarrow> 'a list" where
  "successes [] = []"
| "successes (Inl e # rs) = successes rs"
| "successes (Inr r # rs) = r # successes rs"

definition frameResults :: "classifier \<Rightarrow> int16 list \<Rightarrow> nat \<Rightarrow> FrameResult list" where
  "frameResults classify audioData n =
     successes (map (\<lambda>i. classify i (frameAt audioData i)) [0..<n])"

text \<open>
  The aggregate \<^verbatim>\<open>VADResult\<close> of lib/audio/types. \<^verbatim>\<open>processingTime\<close>, a difference of two
  wall-clock readings, is left out.
\<close>

record VADResult =
  totalFrames :: nat
  speechFrames :: nat
  speechPercentage :: jsnum
  hasSpeech :: bool
  avgProbability :: jsnum
  segments :: "AudioSegment list"

text \<open>
  \<^verbatim>\<open>processAudioWithVAD\<close>, for an initialised classifier (\<^verbatim>\<open>initializeVAD\<close> has returned).
\<close>

definition processAudioWithVAD :: "classifier \<Rightarrow> int16 list \<Rightarrow> nat \<Rightarrow> error + VADResult" where
  "processAudioWithVAD classify audioData rate =
     (let frameCount = length audioData div HOP_SIZE
      in andThen (frameLoop classify audioData rate frameCount 0 (0, Num 0, [], None))
           (\<lambda>(speechFrames, totalProbability, segments, currentSegment).
              let segments = (case currentSegment of
                                Some cur \<Rightarrow> segments @ [cur]
                              | None \<Rightarrow> segments);
                  speechPercentage =
                    (if frameCount > 0
                     then js_mul (js_div (Num (real speechFrames)) (Num (real frameCount))) (Num 100)
                     else Num 0);
                  avgProbability =
                    (if frameCount > 0
                     then js_div totalProbability (Num (real frameCount))
                     else Num 0)
              in Inr \<lparr> totalFrames = frameCount,
                       speechFrames = speechFrames,
                       speechPercentage = speechPercentage,
                       hasSpeech = (speechFrames > 0),
                       avgProbability = avgProbability,
                       segments = segments \<rparr>))"

record SpeechExtraction =
  originalBuffer :: "byte list"
  processedBuffer :: "byte list"
  vadResult :: VADResult
  speechFound :: bool

text \<open>
  \<^verbatim>\<open>extractSpeechSegments\<close>, from the bytes that \<^verbatim>\<open>base64ToArrayBuffer\<close> decoded
  (the decoding itself is the runtime's \<^verbatim>\<open>Buffer.from\<close>).
\<close>

definition extractSpeechSegments ::
  "classifier \<Rightarrow> byte list \<Rightarrow> jsnum \<Rightarrow> jsnum \<Rightarrow> error + SpeechExtraction" where
  "extractSpeechSegments classify decoded minDurationMs minProbability =
     (let originalBuffer = decoded
      in andThen (parseWAVHeader originalBuffer) (\<lambda>wavInfo.
         andThen (extractMonoAudio originalBuffer wavInfo) (\<lambda>monoAudioData.
         andThen (processAudioWithVAD classify monoAudioData (sampleRate wavInfo)) (\<lambda>vadResult.
           let filteredSegments =
                 filterSpeechSegments (segments vadResult) minDurationMs minProbability
           in if length filteredSegments = 0 then
                Inr \<lparr> originalBuffer = originalBuffer,
                      processedBuffer = originalBuffer,
                      vadResult = vadResult,
                      speechFound = False \<rparr>
              else
                andThen (mergeAudioSegments filteredSegments) (\<lambda>mergedAudioData.
                  let processedBuffer = createWAVBuffer mergedAudioData (sampleRate wavInfo) 1
                  in Inr \<lparr> originalBuffer = originalBuffer,
                           processedBuffer = processedBuffer,
                           vadResult = vadResult,
                           speechFound = True \<rparr>)))))"

section \<open>Runs, order and loop invariants\<close>

text \<open>
  The number of maximal contiguous runs of \<open>True\<close> in a list of speech flags: the number of
  positions that start a run, which are those holding \<open>True\<close> with no \<open>True\<close> just before.
\<close>

definition run_start :: "bool list \<Rightarrow> nat \<Rightarrow> bool" where
  "run_start bs i \<longleftrightarrow> bs ! i \<and> (i = 0 \<or> \<not> bs ! (i - 1))"

definition speech_runs :: "bool list \<Rightarrow> nat" where
  "speech_runs bs = length (filter (run_start bs) [0..<length bs])"

text \<open>
  Temporal order of two segments: the interval \<open>[startTime, endTime)\<close> of the first ends no
  later than that of the second begins.
\<close>

definition precedes :: "AudioSegment \<Rightarrow> AudioSegment \<Rightarrow> bool" where
  "precedes s t = js_ge (startTime t) (endTime s)"

text \<open>
  Invariants of the frame loop. The segments built so far are the closed ones followed by the
  open one, if any. Their number is the number of runs among the results so far, and a
  segment is open exactly when the last result was speech. The segments are non-empty and
  separated in frame order, and for a positive sample rate the times of a segment are its
  frame bounds divided by the rate.
\<close>

definition openSegment :: "AudioSegment option \<Rightarrow> AudioSegment list" where
  "openSegment cur = (case cur of None \<Rightarrow> [] | Some seg \<Rightarrow> [seg])"

definition count_inv :: "classifier \<Rightarrow> int16 list \<Rightarrow> nat \<Rightarrow> vad_locals \<Rightarrow> bool" where
  "count_inv classify audioData j =
     (\<lambda>(sf, tp, segs, cur).
        let bs = map FrameResult.isSpeech (frameResults classify audioData j)
        in length (segs @ openSegment cur) = speech_runs bs
           \<and> (cur \<noteq> None \<longleftrightarrow> bs \<noteq> [] \<and> last bs))"

definition order_inv :: "nat \<Rightarrow> vad_locals \<Rightarrow> bool" where
  "order_inv j =
     (\<lambda>(sf, tp, segs, cur).
        (\<forall>seg \<in> set (segs @ openSegment cur).
            startFrame seg < endFrame seg \<and> endFrame seg \<le> j * HOP_SIZE)
        \<and> sorted_wrt (\<lambda>s t. endFrame s \<le> startFrame t) (segs @ openSegment cur))"

definition timed :: "nat \<Rightarrow> AudioSegment \<Rightarrow> bool" where
  "timed rate seg \<longleftrightarrow>
     startTime seg = Num (real (startFrame seg) / real rate)
     \<and> endTime seg = Num (real (endFrame seg) / real rate)"

definition time_inv :: "nat \<Rightarrow> vad_locals \<Rightarrow> bool" where
  "time_inv rate = (\<lambda>(sf, tp, segs, cur). \<forall>seg \<in> set (segs @ openSegment cur). timed rate seg)"

text \<open>
  The invariant for an input on which every frame is classified as speech, with
  probabilities \<open>ps\<close>: no segment is closed, and after the first frame one segment is open
  whose probability is the fold of \<open>(a + p) / 2\<close> over the probabilities so far.
\<close>

definition ema_inv :: "jsnum list \<Rightarrow> nat \<Rightarrow> vad_locals \<Rightarrow> bool" where
  "ema_inv ps j =
     (\<lambda>(sf, tp, segs, cur).
        segs = [] \<and>
        (if j = 0 then cur = None
         else \<exists>seg. cur = Some seg
                \<and> probability seg =
                    foldl (\<lambda>a p. js_div (js_add a p) (Num 2)) (hd ps) (tl (take j ps))))"

text \<open>
  The maximal contiguous runs of speech results in a sequence of classification results, in
  order: silence is skipped, and a speech result opens a run that takes every speech result
  that follows directly.
\<close>

function speechRuns :: "FrameResult list \<Rightarrow> FrameResult list list" where
  "speechRuns [] = []"
| "speechRuns (r # rs) =
     (if FrameResult.isSpeech r
      then (r # takeWhile FrameResult.isSpeech rs) # speechRuns (dropWhile FrameResult.isSpeech rs)
      else speechRuns rs)"
  by pat_completeness auto
termination
  by (relation "measure length") (auto simp add: length_dropWhile_le le_imp_less_Suc)

text \<open>
  The left fold of \<open>(a + p) / 2\<close> over the probabilities of a run, from the first one.
\<close>

fun emaFold :: "FrameResult list \<Rightarrow> jsnum" where
  "emaFold (r # rs) =
     foldl (\<lambda>a p. js_div (js_add a p) (Num 2)) (FrameResult.probability r)
       (map FrameResult.probability rs)"

text \<open>
  The probabilities of the segments still to come when the loop stands before the results
  \<open>rs\<close>, with no segment open or with one open whose probability is \<open>a\<close>.
\<close>

fun pendingProbabilities :: "jsnum option \<Rightarrow> FrameResult list \<Rightarrow> jsnum list" where
  "pendingProbabilities None rs = map emaFold (speechRuns rs)"
| "pendingProbabilities (Some a) rs =
     foldl (\<lambda>a p. js_div (js_add a p) (Num 2)) a
       (map FrameResult.probability (takeWhile FrameResult.isSpeech rs))
     # map emaFold (speechRuns (dropWhile FrameResult.isSpeech rs))"

text \<open>
  A stand-in for the classifier in examples: every frame gets probability 1, and counts as
  speech exactly when it holds a sample of value 7.
\<close>

definition sevenDetector :: classifier where
  "sevenDetector i frame = Inr \<lparr> FrameResult.probability = Num 1, isSpeech = (7 \<in> set frame) \<rparr>"

section \<open>Container codec: properties\<close>

lemma andThen_Inr [simp]: "andThen (Inr x) f = f x"
  by (simp add: andThen_def)

lemma andThen_Inl [simp]: "andThen (Inl e) f = Inl e"
  by (simp add: andThen_def)

subsection \<open>Reading back what was written\<close>

lemma bytesToInt16_int16ToBytes: "bytesToInt16 (ucast s) (ucast (drop_bit 8 s)) = (s :: int16)"
  unfolding bytesToInt16_def
  by (rule bit_word_eqI) (auto simp add: bit_simps)

lemma int16s_concat: "int16s (concat (map int16ToBytes xs)) = xs"
  by (induction xs) (simp_all add: int16ToBytes_def bytesToInt16_int16ToBytes)

lemma length_sample_bytes: "length (concat (map int16ToBytes xs)) = 2 * length xs"
  by (induction xs) (simp_all add: int16ToBytes_def)

lemma unat_byte_of_nat: "unat (of_nat v :: byte) = v mod 256"
  by (simp add: unat_of_nat)

lemma le32_value:
  "v mod 256 + 256 * (v div 256 mod 256) + 65536 * (v div 65536 mod 256)
     + 16777216 * (v div 16777216 mod 256) = v mod 4294967296" for v :: nat
proof -
  have a: "v mod 65536 = v mod 256 + 256 * (v div 256 mod 256)"
    using mod_mult2_eq [of v 256 256] by simp
  have b: "v mod 16777216 = v mod 65536 + 65536 * (v div 65536 mod 256)"
    using mod_mult2_eq [of v 65536 256] by simp
  have c: "v mod 4294967296 = v mod 16777216 + 16777216 * (v div 16777216 mod 256)"
    using mod_mult2_eq [of v 16777216 256] by simp
  show ?thesis using a b c by simp
qed

lemma getUint32_setUint32:
  "length pre = i \<Longrightarrow> getUint32 (pre @ setUint32 v @ post) i = Inr (v mod 4294967296)"
  by (simp add: getUint32_def setUint32_def nth_append unat_byte_of_nat le32_value)

lemma createWAVBuffer_bytes:
  "createWAVBuffer audioData rate nchannels =
     [0x52, 0x49, 0x46, 0x46] @ setUint32 (36 + 2 * length audioData)
     @ [0x57, 0x41, 0x56, 0x45, 0x66, 0x6D, 0x74, 0x20, 16, 0, 0, 0, 1, 0]
     @ setUint16 nchannels @ setUint32 rate @ setUint32 (rate * nchannels * 2)
     @ setUint16 (nchannels * 2) @ [16, 0, 0x64, 0x61, 0x74, 0x61]
     @ setUint32 (2 * length audioData) @ concat (map int16ToBytes audioData)"
  by (simp add: createWAVBuffer_def Let_def setUint32_def setUint16_def mult.commute)


lemma length_createWAVBuffer: "length (createWAVBuffer xs rate n) = 44 + 2 * length xs"
  by (simp add: createWAVBuffer_def Let_def setUint32_def setUint16_def length_sample_bytes)

lemmas wav_read_defs = createWAVBuffer_def Let_def setUint32_def setUint16_def
  getChunkId_def getUint8_def getUint16_def getUint32_def charCodes_def length_sample_bytes
  unat_byte_of_nat

lemma create_riff: "getChunkId (createWAVBuffer xs rate n) 0 = Inr (charCodes ''RIFF'')"
  by (simp add: wav_read_defs)

lemma create_wave: "getChunkId (createWAVBuffer xs rate n) 8 = Inr (charCodes ''WAVE'')"
  by (simp add: wav_read_defs)

lemma create_fmt: "getChunkId (createWAVBuffer xs rate n) 12 = Inr (charCodes ''fmt '')"
  by (simp add: wav_read_defs)

lemma create_fmt_size: "getUint32 (createWAVBuffer xs rate n) 16 = Inr 16"
  by (simp add: wav_read_defs)

lemma create_audioFormat: "getUint16 (createWAVBuffer xs rate n) 20 = Inr 1"
  by (simp add: wav_read_defs)

lemma create_channels: "getUint16 (createWAVBuffer xs rate n) 22 = Inr (n mod 65536)"
proof -
  have "n mod 256 + 256 * (n div 256 mod 256) = n mod 65536"
    using mod_mult2_eq [of n 256 256] by simp
  then show ?thesis by (simp add: wav_read_defs)
qed

lemma create_sampleRate: "getUint32 (createWAVBuffer xs rate n) 24 = Inr (rate mod 4294967296)"
  by (simp add: wav_read_defs le32_value)

lemma create_bits: "getUint16 (createWAVBuffer xs rate n) 34 = Inr 16"
  by (simp add: wav_read_defs)

lemma create_data: "xs \<noteq> [] \<Longrightarrow> getChunkId (createWAVBuffer xs rate n) 36 = Inr (charCodes ''data'')"
  by (simp add: wav_read_defs)

lemma length_setUint32: "length (setUint32 v) = 4"
  by (simp add: setUint32_def)

lemma length_setUint16: "length (setUint16 v) = 2"
  by (simp add: setUint16_def)

lemma createWAVBuffer_shape:
  "\<exists>pre. length pre = 40 \<and>
     createWAVBuffer xs rate n = pre @ setUint32 (2 * length xs) @ concat (map int16ToBytes xs)"
  by (rule exI [of _ "[0x52, 0x49, 0x46, 0x46] @ setUint32 (36 + 2 * length xs)
     @ [0x57, 0x41, 0x56, 0x45, 0x66, 0x6D, 0x74, 0x20, 16, 0, 0, 0, 1, 0]
     @ setUint16 n @ setUint32 rate @ setUint32 (rate * n * 2)
     @ setUint16 (n * 2) @ [16, 0, 0x64, 0x61, 0x74, 0x61]"])
     (simp add: createWAVBuffer_bytes length_setUint32 length_setUint16)

lemma create_data_size:
  "getUint32 (createWAVBuffer xs rate n) 40 = Inr ((2 * length xs) mod 4294967296)"
proof -
  obtain pre where "length pre = 40"
    and "createWAVBuffer xs rate n = pre @ setUint32 (2 * length xs) @ concat (map int16ToBytes xs)"
    using createWAVBuffer_shape by blast
  then show ?thesis
    using getUint32_setUint32 [of pre 40 "2 * length xs"] by simp
qed

lemma parseChunks_create:
  assumes "xs \<noteq> []"
  shows "parseChunks (createWAVBuffer xs rate 1) 12 0 0 0 =
           Inr (44, (2 * length xs) mod 4294967296, rate mod 4294967296, 1, 16)"
proof -
  let ?B = "createWAVBuffer xs rate 1"
  from assms have pos: "0 < length xs" by simp
  have data: "parseChunks ?B 36 (rate mod 4294967296) 1 16 =
           Inr (44, (2 * length xs) mod 4294967296, rate mod 4294967296, 1, 16)"
    using pos
    by (subst parseChunks.simps)
       (simp add: length_createWAVBuffer create_data [OF assms] create_data_size charCodes_def)
  show ?thesis
    by (subst parseChunks.simps)
       (simp add: length_createWAVBuffer create_fmt create_fmt_size create_audioFormat
          create_channels create_sampleRate create_bits nextOffset_def data [simplified])
qed


lemma parseWAVHeader_create:
  assumes "xs \<noteq> []"
  shows "\<exists>h. parseWAVHeader (createWAVBuffer xs rate 1) = Inr h
           \<and> sampleRate h = rate mod 4294967296 \<and> channels h = 1 \<and> bitsPerSample h = 16
           \<and> dataOffset h = 44 \<and> dataSize h = (2 * length xs) mod 4294967296"
  by (simp add: parseWAVHeader_def create_riff create_wave parseChunks_create [OF assms, simplified])

lemma drop_header_create: "drop 44 (createWAVBuffer xs rate n) = concat (map int16ToBytes xs)"
  by (simp add: createWAVBuffer_def Let_def setUint32_def setUint16_def)

lemma decodeWAV_create:
  assumes "xs \<noteq> []"
  shows "decodeWAV (createWAVBuffer xs rate 1) =
           newInt16Array (take ((2 * length xs) mod 4294967296) (concat (map int16ToBytes xs)))"
proof -
  obtain h where h: "parseWAVHeader (createWAVBuffer xs rate 1) = Inr h"
    "channels h = 1" "dataOffset h = 44" "dataSize h = (2 * length xs) mod 4294967296"
    using parseWAVHeader_create [OF assms] by blast
  show ?thesis
    using h
    by (simp add: decodeWAV_def extractMonoAudio_def slice_def drop_header_create
        andThen_def split: sum.splits)
qed

text \<open>
  C1 (as amended). For every non-empty sample buffer of fewer than \<open>2^31\<close> samples and every
  sample rate, the container that \<^verbatim>\<open>createWAVBuffer(samples, sampleRate, 1)\<close> produces is
  parsed by \<^verbatim>\<open>parseWAVHeader\<close>, and \<^verbatim>\<open>extractMonoAudio\<close> then returns exactly the original
  samples. The bound keeps the byte count \<open>2 * length\<close> inside the 32-bit size field.
\<close>

theorem wav_roundtrip:
  assumes "xs \<noteq> []" and "length xs < 2 ^ 31"
  shows "decodeWAV (createWAVBuffer xs rate 1) = Inr xs"
proof -
  from assms(2) have "(2 * length xs) mod 4294967296 = 2 * length xs" by simp
  then show ?thesis
    by (simp add: decodeWAV_create [OF assms(1), simplified] newInt16Array_def
        length_sample_bytes int16s_concat)
qed

theorem wav_roundtrip_witness:
  "[1, 65534] \<noteq> ([] :: int16 list) \<and> length [1, 65534 :: int16] < 2 ^ 31
   \<and> decodeWAV (createWAVBuffer [1, 65534] 16000 1) = Inr [1, 65534]"
  using wav_roundtrip [of "[1, 65534]" 16000] by simp

text \<open>
  Without the bound the round trip fails: for \<open>2^31\<close> samples the data size \<open>2^32\<close> is
  stored as 0 by \<^verbatim>\<open>setUint32\<close>, and decoding returns the empty buffer.
\<close>

theorem wav_roundtrip_4GiB_counterexample:
  "replicate (2 ^ 31) 0 \<noteq> ([] :: int16 list) \<and> (0 :: nat) < 16000
   \<and> decodeWAV (createWAVBuffer (replicate (2 ^ 31) 0) 16000 1) \<noteq> Inr (replicate (2 ^ 31) 0)"
proof -
  have ne: "replicate (2 ^ 31) 0 \<noteq> ([] :: int16 list)" by simp
  have "decodeWAV (createWAVBuffer (replicate (2 ^ 31) 0) 16000 1) = Inr []"
    by (simp add: decodeWAV_create [OF ne, simplified] newInt16Array_def)
  with ne show ?thesis by simp
qed

subsection \<open>The chunk walk\<close>

lemma getChunkId_in_range:
  "offset + 4 \<le> length buffer \<Longrightarrow> getChunkId buffer offset = Inr (tagAt buffer offset)"
  by (simp add: getChunkId_def getUint8_def tagAt_def)

lemma getUint32_in_range:
  "offset + 8 \<le> length buffer \<Longrightarrow> getUint32 buffer (offset + 4) = Inr (sizeAt buffer offset)"
  by (simp add: getUint32_def sizeAt_def add.commute)

text \<open>One unfolding of the loop for a chunk that is neither fmt nor data, and for a data chunk.\<close>

lemma parseChunks_data:
  assumes "offset + 8 < length buffer" and "tagAt buffer offset = charCodes ''data''"
  shows "parseChunks buffer offset sr ch bps =
           Inr (int (offset + 8), sizeAt buffer offset, sr, ch, bps)"
  using assms
  by (subst parseChunks.simps)
     (simp add: getChunkId_in_range getUint32_in_range charCodes_def)

lemma parseChunks_other:
  assumes "offset + 8 < length buffer" and "tagAt buffer offset \<noteq> charCodes ''data''"
    and "tagAt buffer offset \<noteq> charCodes ''fmt ''"
  shows "parseChunks buffer offset sr ch bps =
           parseChunks buffer (nextOffset offset (sizeAt buffer offset)) sr ch bps"
  using assms
  by (subst parseChunks.simps)
     (simp add: getChunkId_in_range getUint32_in_range)

lemma parseChunks_end:
  assumes "\<not> offset + 8 < length buffer"
  shows "parseChunks buffer offset sr ch bps = Inr (- 1, 0, sr, ch, bps)"
  using assms by (subst parseChunks.simps) auto

text \<open>A fmt chunk either aborts the walk or passes it on with new format values.\<close>

lemma parseChunks_fmt:
  assumes "offset + 8 < length buffer" and "tagAt buffer offset = charCodes ''fmt ''"
  shows "(\<exists>e. parseChunks buffer offset sr ch bps = Inl e) \<or>
         (\<exists>sr' ch' bps'. parseChunks buffer offset sr ch bps =
            parseChunks buffer (nextOffset offset (sizeAt buffer offset)) sr' ch' bps')"
  using assms
  by (subst parseChunks.simps, subst (3) parseChunks.simps)
     (auto simp add: getChunkId_in_range getUint32_in_range andThen_def split: sum.splits)


lemma parseChunks_found_data:
  "parseChunks buffer offset sr ch bps = Inr (d, s, sr', ch', bps') \<Longrightarrow> d \<noteq> - 1
     \<Longrightarrow> charCodes ''data'' \<in> set (chunkIds buffer offset)"
proof (induction buffer offset arbitrary: sr ch bps rule: chunkIds.induct)
  case (1 buffer offset)
  show ?case
  proof (cases "offset + 8 < length buffer")
    case False
    with "1.prems" show ?thesis by (simp add: parseChunks_end)
  next
    case inside: True
    show ?thesis
    proof (cases "tagAt buffer offset = charCodes ''data''")
      case True
      with inside show ?thesis by (subst chunkIds.simps) simp
    next
      case nodata: False
      have "\<exists>sr2 ch2 bps2. parseChunks buffer (nextOffset offset (sizeAt buffer offset)) sr2 ch2 bps2
              = Inr (d, s, sr', ch', bps')"
      proof (cases "tagAt buffer offset = charCodes ''fmt ''")
        case True
        from parseChunks_fmt [OF inside True, of sr ch bps] "1.prems"(1)
        show ?thesis by (metis sum.distinct(1))
      next
        case False
        from parseChunks_other [OF inside nodata False, of sr ch bps] "1.prems"(1)
        show ?thesis by metis
      qed
      then obtain sr2 ch2 bps2 where
        "parseChunks buffer (nextOffset offset (sizeAt buffer offset)) sr2 ch2 bps2
           = Inr (d, s, sr', ch', bps')" by blast
      from "1.IH" [OF inside nodata this "1.prems"(2)]
      have "charCodes ''data'' \<in> set (chunkIds buffer (nextOffset offset (sizeAt buffer offset)))" .
      with inside nodata show ?thesis by (subst chunkIds.simps) simp
    qed
  qed
qed

lemma parseChunks_without_fmt:
  "charCodes ''data'' \<in> set (chunkIds buffer offset)
     \<Longrightarrow> charCodes ''fmt '' \<notin> set (chunkIds buffer offset)
     \<Longrightarrow> \<exists>d s. parseChunks buffer offset sr ch bps = Inr (int d, s, sr, ch, bps) \<and> 8 \<le> d"
proof (induction buffer offset rule: chunkIds.induct)
  case (1 buffer offset)
  show ?case
  proof (cases "offset + 8 < length buffer")
    case False
    with "1.prems"(1) show ?thesis by (subst (asm) chunkIds.simps) simp
  next
    case inside: True
    show ?thesis
    proof (cases "tagAt buffer offset = charCodes ''data''")
      case True
      have "parseChunks buffer offset sr ch bps =
              Inr (int (offset + 8), sizeAt buffer offset, sr, ch, bps)"
        by (rule parseChunks_data [OF inside True])
      moreover have "8 \<le> offset + 8" by simp
      ultimately show ?thesis by blast
    next
      case nodata: False
      from "1.prems" inside nodata
      have rest: "charCodes ''data'' \<in> set (chunkIds buffer (nextOffset offset (sizeAt buffer offset)))"
        "charCodes ''fmt '' \<notin> set (chunkIds buffer (nextOffset offset (sizeAt buffer offset)))"
        and nofmt: "tagAt buffer offset \<noteq> charCodes ''fmt ''"
        by (subst (asm) (1 2) chunkIds.simps, auto)+
      from "1.IH" [OF inside nodata rest] parseChunks_other [OF inside nodata nofmt]
      show ?thesis by simp
    qed
  qed
qed


lemma getUint16_in_range:
  "i + 2 \<le> length buffer \<Longrightarrow> getUint16 buffer i = Inr (u16At buffer i)"
  by (simp add: getUint16_def u16At_def)

lemma parseChunks_fmt_inside:
  assumes "offset + 8 < length buffer" and "tagAt buffer offset = charCodes ''fmt ''"
    and "offset + 24 \<le> length buffer"
  shows "\<exists>sr' ch'. parseChunks buffer offset sr ch bps =
           (if u16At buffer (offset + 8) \<noteq> 1 then Inl UnsupportedFormat
            else if u16At buffer (offset + 22) \<noteq> 16 then Inl UnsupportedBitDepth
            else parseChunks buffer (nextOffset offset (sizeAt buffer offset))
                   sr' ch' (u16At buffer (offset + 22)))"
proof -
  from assms(3) have r: "getUint16 buffer (offset + 8) = Inr (u16At buffer (offset + 8))"
    "getUint16 buffer (offset + 10) = Inr (u16At buffer (offset + 10))"
    "getUint16 buffer (offset + 22) = Inr (u16At buffer (offset + 22))"
    "\<exists>v. getUint32 buffer (offset + 12) = Inr v"
    by (simp_all add: getUint16_in_range getUint32_def)
  then obtain v where v: "getUint32 buffer (offset + 12) = Inr v" by blast
  show ?thesis
    using assms(1,2)
    by (subst parseChunks.simps)
       (auto simp add: getChunkId_in_range getUint32_in_range r(1-3) v)
qed

lemma walk_without_data:
  "charCodes ''data'' \<notin> set (chunkIds buffer offset)
   \<Longrightarrow> list_all (\<lambda>off. off + 24 \<le> length buffer) (fmtOffsets buffer offset)
   \<Longrightarrow> (\<exists>sr' ch' bps'. parseChunks buffer offset sr ch bps = Inr (- 1, 0, sr', ch', bps'))
       \<or> parseChunks buffer offset sr ch bps = Inl UnsupportedFormat
       \<or> parseChunks buffer offset sr ch bps = Inl UnsupportedBitDepth"
proof (induction buffer offset arbitrary: sr ch bps rule: chunkIds.induct)
  case (1 buffer offset)
  show ?case
  proof (cases "offset + 8 < length buffer")
    case False
    then show ?thesis by (simp add: parseChunks_end)
  next
    case inside: True
    from "1.prems"(1) inside have nodata: "tagAt buffer offset \<noteq> charCodes ''data''"
      and rest: "charCodes ''data'' \<notin> set (chunkIds buffer (nextOffset offset (sizeAt buffer offset)))"
      by (subst (asm) chunkIds.simps, auto split: if_splits)+
    from "1.prems"(2) inside nodata
    have fmts: "list_all (\<lambda>off. off + 24 \<le> length buffer)
                  (fmtOffsets buffer (nextOffset offset (sizeAt buffer offset)))"
      and here: "tagAt buffer offset = charCodes ''fmt '' \<longrightarrow> offset + 24 \<le> length buffer"
      by (subst (asm) fmtOffsets.simps, auto split: if_splits)+
    note IH = "1.IH" [OF inside nodata rest fmts]
    show ?thesis
    proof (cases "tagAt buffer offset = charCodes ''fmt ''")
      case True
      with here have "offset + 24 \<le> length buffer" by simp
      from parseChunks_fmt_inside [OF inside True this, of sr ch bps]
      obtain sr' ch' where "parseChunks buffer offset sr ch bps =
           (if u16At buffer (offset + 8) \<noteq> 1 then Inl UnsupportedFormat
            else if u16At buffer (offset + 22) \<noteq> 16 then Inl UnsupportedBitDepth
            else parseChunks buffer (nextOffset offset (sizeAt buffer offset))
                   sr' ch' (u16At buffer (offset + 22)))" by blast
      with IH [of sr' ch' "u16At buffer (offset + 22)"] show ?thesis
        by (auto split: if_splits)
    next
      case False
      from parseChunks_other [OF inside nodata False, of sr ch bps] IH [of sr ch bps]
      show ?thesis by simp
    qed
  qed
qed

lemma walk_without_data_pcm16:
  "charCodes ''data'' \<notin> set (chunkIds buffer offset)
   \<Longrightarrow> list_all (\<lambda>off. off + 24 \<le> length buffer
                        \<and> u16At buffer (off + 8) = 1 \<and> u16At buffer (off + 22) = 16)
         (fmtOffsets buffer offset)
   \<Longrightarrow> \<exists>sr' ch' bps'. parseChunks buffer offset sr ch bps = Inr (- 1, 0, sr', ch', bps')"
proof (induction buffer offset arbitrary: sr ch bps rule: chunkIds.induct)
  case (1 buffer offset)
  show ?case
  proof (cases "offset + 8 < length buffer")
    case False
    then show ?thesis by (simp add: parseChunks_end)
  next
    case inside: True
    from "1.prems"(1) inside have nodata: "tagAt buffer offset \<noteq> charCodes ''data''"
      and rest: "charCodes ''data'' \<notin> set (chunkIds buffer (nextOffset offset (sizeAt buffer offset)))"
      by (subst (asm) chunkIds.simps, auto split: if_splits)+
    from "1.prems"(2) inside nodata
    have fmts: "list_all (\<lambda>off. off + 24 \<le> length buffer
                        \<and> u16At buffer (off + 8) = 1 \<and> u16At buffer (off + 22) = 16)
                  (fmtOffsets buffer (nextOffset offset (sizeAt buffer offset)))"
      and here: "tagAt buffer offset = charCodes ''fmt '' \<longrightarrow>
                   offset + 24 \<le> length buffer
                   \<and> u16At buffer (offset + 8) = 1 \<and> u16At buffer (offset + 22) = 16"
      by (subst (asm) fmtOffsets.simps, auto split: if_splits)+
    note IH = "1.IH" [OF inside nodata rest fmts]
    show ?thesis
    proof (cases "tagAt buffer offset = charCodes ''fmt ''")
      case True
      with here have h: "offset + 24 \<le> length buffer"
        "u16At buffer (offset + 8) = 1" "u16At buffer (offset + 22) = 16" by simp_all
      from parseChunks_fmt_inside [OF inside True h(1), of sr ch bps] h(2,3)
      obtain sr' ch' where "parseChunks buffer offset sr ch bps =
           parseChunks buffer (nextOffset offset (sizeAt buffer offset)) sr' ch' 16" by auto
      with IH [of sr' ch' 16] show ?thesis by simp
    next
      case False
      from parseChunks_other [OF inside nodata False, of sr ch bps] IH [of sr ch bps]
      show ?thesis by simp
    qed
  qed
qed


text \<open>
  C4 (as amended). A buffer whose chunk walk comes upon no data sub-chunk yields no header at
  all: \<^verbatim>\<open>parseWAVHeader\<close> throws. The exception is a format error whenever the buffer holds
  the 12 bytes before the first sub-chunk and every fmt sub-chunk on the walk lies in the
  buffer with the 24 bytes read of it; it is "Invalid WAV file: no data chunk found" when the
  RIFF and WAVE tags are in place and every fmt sub-chunk on the walk is 16-bit PCM.
\<close>

theorem parseWAVHeader_no_data_chunk:
  assumes "charCodes ''data'' \<notin> set (chunkIds buffer 12)"
  shows "\<exists>e. parseWAVHeader buffer = Inl e
           \<and> (12 \<le> length buffer \<and> fmtChunksInside buffer \<longrightarrow> isFormatError e)
           \<and> (getChunkId buffer 0 = Inr (charCodes ''RIFF'')
              \<and> getChunkId buffer 8 = Inr (charCodes ''WAVE'')
              \<and> fmtChunksPCM16 buffer \<longrightarrow> e = NoDataChunk)"
proof -
  have walk: "d = - 1" if "parseChunks buffer 12 0 0 0 = Inr (d, s, sr, ch, bps)" for d s sr ch bps
    using parseChunks_found_data [OF that] assms by blast
  have "\<exists>e. parseWAVHeader buffer = Inl e"
    using walk
    by (cases "parseWAVHeader buffer")
       (auto simp add: parseWAVHeader_def andThen_def split: sum.splits if_splits)
  then obtain e where e: "parseWAVHeader buffer = Inl e" by blast
  have format: "isFormatError e" if len: "12 \<le> length buffer" and fmts: "fmtChunksInside buffer"
  proof -
    from len have tags: "getChunkId buffer 0 = Inr (tagAt buffer 0)"
      "getChunkId buffer 8 = Inr (tagAt buffer 8)"
      by (simp_all add: getChunkId_in_range)
    from walk_without_data [OF assms, of 0 0 0] fmts
    consider sr' ch' bps' where "parseChunks buffer 12 0 0 0 = Inr (- 1, 0, sr', ch', bps')"
      | "parseChunks buffer 12 0 0 0 = Inl UnsupportedFormat"
      | "parseChunks buffer 12 0 0 0 = Inl UnsupportedBitDepth"
      unfolding fmtChunksInside_def by blast
    then show ?thesis
      using e by cases (auto simp add: parseWAVHeader_def tags isFormatError_def split: if_splits)
  qed
  have nodata: "e = NoDataChunk"
    if "getChunkId buffer 0 = Inr (charCodes ''RIFF'')"
      and "getChunkId buffer 8 = Inr (charCodes ''WAVE'')" and "fmtChunksPCM16 buffer"
  proof -
    from walk_without_data_pcm16 [OF assms, of 0 0 0] that(3)
    obtain sr' ch' bps' where "parseChunks buffer 12 0 0 0 = Inr (- 1, 0, sr', ch', bps')"
      unfolding fmtChunksPCM16_def by blast
    with e that(1,2) show ?thesis by (simp add: parseWAVHeader_def)
  qed
  from e format nodata show ?thesis by blast
qed

text \<open>
  An instance: the container of an empty sample buffer. Its data sub-chunk starts at
  \<open>byteLength - 8\<close>, where the loop condition already fails.
\<close>

lemma empty_wav_bytes:
  "createWAVBuffer [] 16000 (Suc 0) =
     [0x52, 0x49, 0x46, 0x46, 36, 0, 0, 0, 0x57, 0x41, 0x56, 0x45,
      0x66, 0x6D, 0x74, 0x20, 16, 0, 0, 0, 1, 0, 1, 0, 0x80, 0x3E, 0, 0, 0, 0x7D, 0, 0,
      2, 0, 16, 0, 0x64, 0x61, 0x74, 0x61, 0, 0, 0, 0]"
  by (simp add: createWAVBuffer_def setUint32_def setUint16_def)

theorem parseWAVHeader_no_data_chunk_witness:
  "charCodes ''data'' \<notin> set (chunkIds (createWAVBuffer [] 16000 1) 12)
   \<and> 12 \<le> length (createWAVBuffer [] 16000 1)
   \<and> fmtChunksInside (createWAVBuffer [] 16000 1)
   \<and> fmtChunksPCM16 (createWAVBuffer [] 16000 1)
   \<and> parseWAVHeader (createWAVBuffer [] 16000 1) = Inl NoDataChunk
   \<and> isFormatError NoDataChunk"
proof -
  let ?B = "createWAVBuffer [] 16000 1"
  have ids: "chunkIds ?B 12 = [charCodes ''fmt '']"
    by (simp add: empty_wav_bytes chunkIds.simps tagAt_def sizeAt_def nextOffset_def charCodes_def)
  have offs: "fmtOffsets ?B 12 = [12]"
    by (simp add: empty_wav_bytes fmtOffsets.simps tagAt_def sizeAt_def nextOffset_def charCodes_def)
  have nodata: "charCodes ''data'' \<notin> set (chunkIds ?B 12)"
    by (simp add: ids [simplified] charCodes_def)
  have len: "12 \<le> length ?B" by (simp add: length_createWAVBuffer)
  have inside: "fmtChunksInside ?B"
    by (simp add: fmtChunksInside_def offs [simplified] length_createWAVBuffer)
  have pcm: "fmtChunksPCM16 ?B"
    unfolding fmtChunksPCM16_def
    by (simp add: offs [simplified]) (simp add: empty_wav_bytes u16At_def)
  from parseWAVHeader_no_data_chunk [OF nodata] len inside pcm
  have "parseWAVHeader ?B = Inl NoDataChunk"
    by (auto simp add: create_riff create_wave)
  with nodata len inside pcm show ?thesis by (simp add: isFormatError_def)
qed

text \<open>
  Without the condition on the fmt sub-chunks the exception need not be a format error: in a
  buffer of 21 bytes that ends one byte into the fields of its fmt sub-chunk, the read of
  \<open>audioFormat\<close> at offset 20 is out of range and the runtime's RangeError leaves the parser.
\<close>

theorem truncated_fmt_counterexample:
  "charCodes ''data'' \<notin>
     set (chunkIds [0x52, 0x49, 0x46, 0x46, 13, 0, 0, 0, 0x57, 0x41, 0x56, 0x45,
                    0x66, 0x6D, 0x74, 0x20, 16, 0, 0, 0, 1] 12)
   \<and> parseWAVHeader [0x52, 0x49, 0x46, 0x46, 13, 0, 0, 0, 0x57, 0x41, 0x56, 0x45,
                     0x66, 0x6D, 0x74, 0x20, 16, 0, 0, 0, 1] = Inl RangeError
   \<and> \<not> isFormatError RangeError"
  by (simp add: chunkIds.simps tagAt_def sizeAt_def nextOffset_def charCodes_def
        parseWAVHeader_def parseChunks.simps getChunkId_def getUint8_def getUint16_def
        getUint32_def isFormatError_def)

text \<open>
  C10. A buffer with the RIFF and WAVE tags whose walk reaches a data sub-chunk without
  visiting a fmt sub-chunk is parsed without error; the header has
  \<open>sampleRate = channels = bitsPerSample = 0\<close>, the values the locals were initialised with,
  since the PCM and bit-depth checks sit inside the fmt branch. The two derived sample counts
  are then quotients by zero: \<open>Infinity\<close>, or \<open>NaN\<close> for an empty data sub-chunk.
\<close>

theorem parseWAVHeader_data_without_fmt:
  assumes "getChunkId buffer 0 = Inr (charCodes ''RIFF'')"
    and "getChunkId buffer 8 = Inr (charCodes ''WAVE'')"
    and "charCodes ''data'' \<in> set (chunkIds buffer 12)"
    and "charCodes ''fmt '' \<notin> set (chunkIds buffer 12)"
  shows "\<exists>h. parseWAVHeader buffer = Inr h
           \<and> sampleRate h = 0 \<and> channels h = 0 \<and> bitsPerSample h = 0
           \<and> totalSamples h = (if dataSize h = 0 then NaN else PosInf)
           \<and> samplesPerChannel h = (if dataSize h = 0 then NaN else PosInf)"
proof -
  obtain d s where walk: "parseChunks buffer 12 0 0 0 = Inr (int d, s, 0, 0, 0)"
    using parseChunks_without_fmt [OF assms(3) assms(4)] by blast
  show ?thesis
    by (simp add: parseWAVHeader_def assms(1) assms(2) walk)
qed

theorem parseWAVHeader_data_without_fmt_witness:
  "getChunkId [0x52, 0x49, 0x46, 0x46, 14, 0, 0, 0, 0x57, 0x41, 0x56, 0x45,
               0x64, 0x61, 0x74, 0x61, 2, 0, 0, 0, 7, 0] 0 = Inr (charCodes ''RIFF'')
   \<and> getChunkId [0x52, 0x49, 0x46, 0x46, 14, 0, 0, 0, 0x57, 0x41, 0x56, 0x45,
                 0x64, 0x61, 0x74, 0x61, 2, 0, 0, 0, 7, 0] 8 = Inr (charCodes ''WAVE'')
   \<and> chunkIds [0x52, 0x49, 0x46, 0x46, 14, 0, 0, 0, 0x57, 0x41, 0x56, 0x45,
               0x64, 0x61, 0x74, 0x61, 2, 0, 0, 0, 7, 0] 12 = [charCodes ''data'']
   \<and> parseWAVHeader [0x52, 0x49, 0x46, 0x46, 14, 0, 0, 0, 0x57, 0x41, 0x56, 0x45,
                     0x64, 0x61, 0x74, 0x61, 2, 0, 0, 0, 7, 0]
       = Inr \<lparr> sampleRate = 0, channels = 0, bitsPerSample = 0, dataOffset = 20, dataSize = 2,
               totalSamples = PosInf, samplesPerChannel = PosInf \<rparr>"
proof -
  let ?B = "[0x52, 0x49, 0x46, 0x46, 14, 0, 0, 0, 0x57, 0x41, 0x56, 0x45,
      0x64, 0x61, 0x74, 0x61, 2, 0, 0, 0, 7, 0] :: byte list"
  have riff: "getChunkId ?B 0 = Inr (charCodes ''RIFF'')"
    and wave: "getChunkId ?B 8 = Inr (charCodes ''WAVE'')"
    by (simp_all add: getChunkId_def getUint8_def charCodes_def)
  have ids: "chunkIds ?B 12 = [charCodes ''data'']"
    by (simp add: chunkIds.simps tagAt_def charCodes_def)
  have "charCodes ''data'' \<in> set (chunkIds ?B 12)"
    and "charCodes ''fmt '' \<notin> set (chunkIds ?B 12)"
    by (simp_all add: ids charCodes_def)
  from parseWAVHeader_data_without_fmt [OF riff wave this]
  obtain h where h: "parseWAVHeader ?B = Inr h" "sampleRate h = 0" "channels h = 0"
    "bitsPerSample h = 0" by blast
  have walk: "parseChunks ?B 12 0 0 0 = Inr (20, 2, 0, 0, 0)"
    by (simp add: parseChunks.simps getChunkId_def getUint8_def getUint32_def charCodes_def)
  have "parseWAVHeader ?B
       = Inr \<lparr> sampleRate = 0, channels = 0, bitsPerSample = 0, dataOffset = 20, dataSize = 2,
               totalSamples = PosInf, samplesPerChannel = PosInf \<rparr>"
    using h by (simp add: parseWAVHeader_def riff wave walk)
  with riff wave ids show ?thesis by blast
qed

section \<open>Frame loop: properties\<close>

lemma full_frame:
  assumes "i < length audioData div HOP_SIZE"
  shows "slice audioData (i * HOP_SIZE) (min (i * HOP_SIZE + HOP_SIZE) (length audioData))
           = frameAt audioData i"
    and "length (frameAt audioData i) = HOP_SIZE"
    and "min (i * HOP_SIZE + HOP_SIZE) (length audioData) = i * HOP_SIZE + HOP_SIZE"
    and "slice audioData (i * HOP_SIZE) (i * HOP_SIZE + HOP_SIZE) = frameAt audioData i"
proof -
  from assms have "Suc i \<le> length audioData div HOP_SIZE" by simp
  then have "Suc i * HOP_SIZE \<le> length audioData div HOP_SIZE * HOP_SIZE"
    by (rule mult_le_mono1)
  also have "\<dots> \<le> length audioData" by simp
  finally have le: "i * HOP_SIZE + HOP_SIZE \<le> length audioData" by simp
  then show "min (i * HOP_SIZE + HOP_SIZE) (length audioData) = i * HOP_SIZE + HOP_SIZE"
    by simp
  with le show "slice audioData (i * HOP_SIZE) (min (i * HOP_SIZE + HOP_SIZE) (length audioData))
           = frameAt audioData i"
    by (simp add: slice_def frameAt_def)
  from le show "length (frameAt audioData i) = HOP_SIZE"
    by (simp add: frameAt_def)
  from le show "slice audioData (i * HOP_SIZE) (i * HOP_SIZE + HOP_SIZE) = frameAt audioData i"
    by (simp add: slice_def frameAt_def)
qed

text \<open>The loop body on a full frame: the padding block is skipped.\<close>

lemma frameBody_full:
  assumes "i < length audioData div HOP_SIZE"
  shows "frameBody classify audioData rate i (sf, tp, segs, cur) =
     (case classify i (frameAt audioData i) of
        Inl error \<Rightarrow> Inr (sf, tp, segs, cur)
      | Inr result \<Rightarrow>
          if FrameResult.isSpeech result then
            (case cur of
               None \<Rightarrow>
                 Inr (sf + 1, js_add tp (FrameResult.probability result),
                      segs,
                      Some \<lparr> startFrame = i * HOP_SIZE,
                             endFrame = i * HOP_SIZE + HOP_SIZE,
                             startTime = js_div (Num (real (i * HOP_SIZE))) (Num (real rate)),
                             endTime = js_add (js_div (Num (real (i * HOP_SIZE))) (Num (real rate)))
                                         (js_div (Num (real HOP_SIZE)) (Num (real rate))),
                             data = frameAt audioData i,
                             isSpeech = True,
                             probability = FrameResult.probability result \<rparr>)
             | Some seg \<Rightarrow>
                 Inr (sf + 1, js_add tp (FrameResult.probability result),
                      segs,
                      Some (seg \<lparr> endFrame := i * HOP_SIZE + HOP_SIZE,
                                  endTime := js_add (js_div (Num (real (i * HOP_SIZE))) (Num (real rate)))
                                         (js_div (Num (real HOP_SIZE)) (Num (real rate))),
                                  data := data seg @ frameAt audioData i,
                                  probability :=
                                    js_div (js_add (AudioSegment.probability seg)
                                                   (FrameResult.probability result))
                                           (Num 2) \<rparr>)))
          else
            (case cur of
               Some seg \<Rightarrow>
                 Inr (sf, js_add tp (FrameResult.probability result),
                      segs @ [seg], None)
             | None \<Rightarrow>
                 Inr (sf, js_add tp (FrameResult.probability result),
                      segs, None)))"
  unfolding frameBody_def
  by (simp only: prod.case Let_def full_frame [OF assms] less_irrefl if_False andThen_Inr)

text \<open>
  The invariant rule for the frame loop: an invariant that holds on entry and is kept by every
  iteration, none of which throws, holds of the locals with which the loop returns.
\<close>

lemma frameLoop_invariant:
  assumes "I i locals" and "i \<le> n"
    and step: "\<And>j l. i \<le> j \<Longrightarrow> j < n \<Longrightarrow> I j l
                 \<Longrightarrow> \<exists>l'. frameBody classify audioData rate j l = Inr l' \<and> I (Suc j) l'"
  shows "\<exists>l'. frameLoop classify audioData rate n i locals = Inr l' \<and> I n l'"
  using assms
proof (induction "n - i" arbitrary: i locals)
  case 0
  then have "i = n" by simp
  with "0.prems"(1) show ?case by (subst frameLoop.simps) simp
next
  case (Suc k)
  then have lt: "i < n" by simp
  from Suc.prems(3) [of i locals] lt Suc.prems(1)
  obtain l' where body: "frameBody classify audioData rate i locals = Inr l'"
    and inv: "I (Suc i) l'" by auto
  have "\<exists>l''. frameLoop classify audioData rate n (Suc i) l' = Inr l'' \<and> I n l''"
  proof (rule Suc.hyps(1))
    show "k = n - Suc i" using Suc.hyps(2) by simp
    show "I (Suc i) l'" by (rule inv)
    show "Suc i \<le> n" using lt by simp
    show "\<exists>l'. frameBody classify audioData rate j l = Inr l' \<and> I (Suc j) l'"
      if "Suc i \<le> j" "j < n" "I j l" for j l
      using that Suc.prems(3) [of j l] by simp
  qed
  with lt body show ?case by (subst frameLoop.simps) simp
qed


lemma successes_append: "successes (xs @ ys) = successes xs @ successes ys"
  by (induction xs rule: successes.induct) simp_all

lemma frameResults_Suc:
  "frameResults classify audioData (Suc j) =
     frameResults classify audioData j
     @ (case classify j (frameAt audioData j) of Inl e \<Rightarrow> [] | Inr r \<Rightarrow> [r])"
  by (simp add: frameResults_def successes_append split: sum.splits)

lemma frameResults_0: "frameResults classify audioData 0 = []"
  by (simp add: frameResults_def)

lemma frameLoop_counts:
  "\<exists>sf tp segs cur.
     frameLoop classify audioData rate (length audioData div HOP_SIZE) 0 (0, Num 0, [], None)
       = Inr (sf, tp, segs, cur)
     \<and> sf = length (filter FrameResult.isSpeech
                 (frameResults classify audioData (length audioData div HOP_SIZE)))"
proof -
  let ?n = "length audioData div HOP_SIZE"
  let ?I = "\<lambda>j (l :: vad_locals).
     fst l = length (filter FrameResult.isSpeech (frameResults classify audioData j))"
  have "\<exists>l'. frameLoop classify audioData rate ?n 0 (0, Num 0, [], None) = Inr l' \<and> ?I ?n l'"
  proof (rule frameLoop_invariant [where I = ?I])
    show "?I 0 (0, Num 0, [], None)" by (simp add: frameResults_0)
    show "0 \<le> ?n" by simp
    show "\<exists>l'. frameBody classify audioData rate j l = Inr l' \<and> ?I (Suc j) l'"
      if "0 \<le> j" "j < ?n" "?I j l" for j l
    proof -
      obtain sf tp segs cur where l: "l = (sf, tp, segs, cur)" by (cases l) auto
      from that(3) show ?thesis
        unfolding l frameBody_full [OF that(2)] frameResults_Suc
        by (auto split: sum.splits option.splits)
    qed
  qed
  then show ?thesis by (metis fst_conv prod_cases4)
qed

text \<open>
  C8. \<^verbatim>\<open>processAudioWithVAD\<close> always returns a result, with
  \<open>totalFrames = floor(sampleCount / hopSize)\<close>. \<open>totalFrames\<close> is 0 exactly for an input of
  fewer than 256 samples, and then \<open>speechPercentage\<close> and \<open>avgProbability\<close> are 0, with no
  division carried out; otherwise \<open>speechPercentage = speechFrames / totalFrames * 100\<close>, where
  \<open>speechFrames\<close> counts the classification results with \<open>isSpeech\<close> set.
\<close>

theorem vad_statistics:
  "\<exists>r. processAudioWithVAD classify audioData rate = Inr r
       \<and> totalFrames r = length audioData div HOP_SIZE
       \<and> speechFrames r = length (filter FrameResult.isSpeech
                              (frameResults classify audioData (length audioData div HOP_SIZE)))
       \<and> (totalFrames r = 0 \<longleftrightarrow> length audioData < HOP_SIZE)
       \<and> (totalFrames r = 0 \<longrightarrow> speechPercentage r = Num 0 \<and> avgProbability r = Num 0)
       \<and> (totalFrames r \<noteq> 0 \<longrightarrow>
            speechPercentage r = Num (real (speechFrames r) / real (totalFrames r) * 100))"
proof -
  obtain sf tp segs cur where loop:
    "frameLoop classify audioData rate (length audioData div HOP_SIZE) 0 (0, Num 0, [], None)
       = Inr (sf, tp, segs, cur)"
    and sf: "sf = length (filter FrameResult.isSpeech
                 (frameResults classify audioData (length audioData div HOP_SIZE)))"
    using frameLoop_counts by blast
  have zero: "length audioData div HOP_SIZE = 0 \<longleftrightarrow> length audioData < HOP_SIZE"
    by (simp add: HOP_SIZE_def div_eq_0_iff)
  show ?thesis
    unfolding processAudioWithVAD_def Let_def loop andThen_Inr prod.case
    using sf zero by simp
qed

theorem vad_statistics_witness:
  "(\<exists>r. processAudioWithVAD (\<lambda>i frame. Inl VADError) [] 16000 = Inr r
        \<and> totalFrames r = 0 \<and> speechPercentage r = Num 0 \<and> avgProbability r = Num 0)
   \<and> (\<exists>r. processAudioWithVAD (\<lambda>i frame. Inr \<lparr> FrameResult.probability = Num 1, isSpeech = True \<rparr>)
             (replicate 256 0) 16000 = Inr r
        \<and> totalFrames r = 1 \<and> speechFrames r = 1 \<and> speechPercentage r = Num 100)"
proof -
  have a: "length ([] :: int16 list) div HOP_SIZE = 0"
    and b: "length (replicate 256 (0 :: int16)) div HOP_SIZE = 1"
    by (simp_all add: HOP_SIZE_def)
  have fr: "frameResults (\<lambda>i frame. Inr \<lparr> FrameResult.probability = Num 1, isSpeech = True \<rparr>)
              (replicate 256 0) 1 = [\<lparr> FrameResult.probability = Num 1, isSpeech = True \<rparr>]"
    by (simp add: frameResults_def)
  from vad_statistics [of "\<lambda>i frame. Inl VADError" "[]" 16000]
       vad_statistics [of "\<lambda>i frame. Inr \<lparr> FrameResult.probability = Num 1, isSpeech = True \<rparr>"
          "replicate 256 0" 16000]
  show ?thesis
    unfolding a b fr by auto
qed

subsection \<open>Segments and runs\<close>

lemma speech_runs_Nil: "speech_runs [] = 0"
  by (simp add: speech_runs_def)

lemma run_start_old: "i < length bs \<Longrightarrow> run_start (bs @ [b]) i = run_start bs i"
  by (auto simp add: run_start_def nth_append)

lemma run_start_new: "run_start (bs @ [b]) (length bs) \<longleftrightarrow> b \<and> (bs = [] \<or> \<not> last bs)"
  by (cases "bs = []") (auto simp add: run_start_def nth_append last_conv_nth)

lemma speech_runs_snoc:
  "speech_runs (bs @ [b]) = speech_runs bs + (if b \<and> (bs = [] \<or> \<not> last bs) then 1 else 0)"
proof -
  have "filter (run_start (bs @ [b])) [0..<length bs] = filter (run_start bs) [0..<length bs]"
    by (rule filter_cong) (simp_all add: run_start_old)
  then show ?thesis
    by (simp add: speech_runs_def run_start_new)
qed

lemma count_inv_step:
  assumes "j < length audioData div HOP_SIZE" and "count_inv classify audioData j l"
  shows "\<exists>l'. frameBody classify audioData rate j l = Inr l' \<and> count_inv classify audioData (Suc j) l'"
proof -
  obtain sf tp segs cur where l: "l = (sf, tp, segs, cur)" by (cases l) auto
  from assms(2) show ?thesis
    unfolding l frameBody_full [OF assms(1)] frameResults_Suc count_inv_def
    by (auto simp add: Let_def speech_runs_snoc openSegment_def split: sum.splits option.splits)
qed

lemma order_inv_step:
  assumes "j < length audioData div HOP_SIZE" and "order_inv j l"
  shows "\<exists>l'. frameBody classify audioData rate j l = Inr l' \<and> order_inv (Suc j) l'"
proof -
  obtain sf tp segs cur where l: "l = (sf, tp, segs, cur)" by (cases l) auto
  have H: "0 < HOP_SIZE" by (simp add: HOP_SIZE_def)
  from assms(2) H show ?thesis
    unfolding l frameBody_full [OF assms(1)] order_inv_def
    by (auto simp add: openSegment_def sorted_wrt_append split: sum.splits option.splits)
qed

lemma time_inv_step:
  assumes "j < length audioData div HOP_SIZE" and "time_inv rate l" and "0 < rate"
  shows "\<exists>l'. frameBody classify audioData rate j l = Inr l' \<and> time_inv rate l'"
proof -
  obtain sf tp segs cur where l: "l = (sf, tp, segs, cur)" by (cases l) auto
  from assms(2,3) show ?thesis
    unfolding l frameBody_full [OF assms(1)] time_inv_def
    by (auto simp add: openSegment_def timed_def add_divide_distrib
          split: sum.splits option.splits)
qed

lemma timed_precedes:
  assumes "0 < rate" and "timed rate s" and "timed rate t" and "endFrame s \<le> startFrame t"
  shows "precedes s t"
proof -
  from assms(4) have "real (endFrame s) / real rate \<le> real (startFrame t) / real rate"
    by (simp add: divide_right_mono)
  with assms(2,3) show ?thesis by (simp add: precedes_def timed_def)
qed

lemma timed_nonempty:
  assumes "0 < rate" and "timed rate s" and "startFrame s < endFrame s"
  shows "js_ge (endTime s) (startTime s) \<and> endTime s \<noteq> startTime s"
proof -
  from assms have "real (startFrame s) / real rate < real (endFrame s) / real rate"
    by (simp add: divide_strict_right_mono)
  with assms show ?thesis by (simp add: timed_def)
qed

text \<open>
  C2. For every classifier and input, hence for every sequence of per-frame classification
  results, \<^verbatim>\<open>processAudioWithVAD\<close> returns as many segments as the sequence of results has
  maximal contiguous runs of \<open>isSpeech = true\<close>; a run still open at the end of the input is
  pushed like the others. A frame on which the classifier throws contributes no result and
  leaves an open segment open. The segments are in temporal order and pairwise
  non-overlapping: in sample positions each covers a non-empty range that ends no later than
  every later segment begins, and for a positive sample rate (which the times divide by) the
  same holds of the intervals \<open>[startTime, endTime)\<close>.
\<close>

theorem segments_are_speech_runs:
  "\<exists>r. processAudioWithVAD classify audioData rate = Inr r
       \<and> length (segments r) =
           speech_runs (map FrameResult.isSpeech
             (frameResults classify audioData (length audioData div HOP_SIZE)))
       \<and> sorted_wrt (\<lambda>s t. endFrame s \<le> startFrame t) (segments r)
       \<and> (\<forall>seg \<in> set (segments r). startFrame seg < endFrame seg)
       \<and> (0 < rate \<longrightarrow>
            sorted_wrt precedes (segments r)
            \<and> (\<forall>seg \<in> set (segments r).
                  js_ge (endTime seg) (startTime seg) \<and> endTime seg \<noteq> startTime seg))"
proof -
  let ?n = "length audioData div HOP_SIZE"
  let ?I = "\<lambda>j l. count_inv classify audioData j l \<and> order_inv j l
                  \<and> (0 < rate \<longrightarrow> time_inv rate l)"
  have "\<exists>l'. frameLoop classify audioData rate ?n 0 (0, Num 0, [], None) = Inr l' \<and> ?I ?n l'"
  proof (rule frameLoop_invariant [where I = ?I])
    show "?I 0 (0, Num 0, [], None)"
      by (simp add: count_inv_def order_inv_def time_inv_def frameResults_0 speech_runs_Nil
            openSegment_def)
    show "0 \<le> ?n" by simp
    show "\<exists>l'. frameBody classify audioData rate j l = Inr l' \<and> ?I (Suc j) l'"
      if "0 \<le> j" "j < ?n" "?I j l" for j l
    proof -
      from count_inv_step [OF that(2), of classify l rate] that(3)
      obtain l' where l': "frameBody classify audioData rate j l = Inr l'"
        "count_inv classify audioData (Suc j) l'" by blast
      moreover have "order_inv (Suc j) l'"
        using order_inv_step [OF \<open>j < ?n\<close>, of l classify rate] \<open>?I j l\<close> l'(1) by auto
      moreover have "time_inv rate l'" if "0 < rate"
        using time_inv_step [OF \<open>j < ?n\<close> _ that, of l classify] \<open>?I j l\<close> that l'(1) by auto
      ultimately show ?thesis by blast
    qed
  qed
  then obtain sf tp segs cur where
    loop: "frameLoop classify audioData rate ?n 0 (0, Num 0, [], None) = Inr (sf, tp, segs, cur)"
    and cnt: "count_inv classify audioData ?n (sf, tp, segs, cur)"
    and ord: "order_inv ?n (sf, tp, segs, cur)"
    and tim: "0 < rate \<longrightarrow> time_inv rate (sf, tp, segs, cur)"
    by (metis prod_cases4)
  let ?segs = "segs @ openSegment cur"
  have result: "\<exists>r. processAudioWithVAD classify audioData rate = Inr r \<and> segments r = ?segs"
    unfolding processAudioWithVAD_def Let_def loop andThen_Inr prod.case
    by (simp add: openSegment_def split: option.splits)
  have count: "length ?segs = speech_runs (map FrameResult.isSpeech (frameResults classify audioData ?n))"
    using cnt by (simp add: count_inv_def Let_def)
  from ord have sorted: "sorted_wrt (\<lambda>s t. endFrame s \<le> startFrame t) ?segs"
    and nonempty: "\<forall>seg \<in> set ?segs. startFrame seg < endFrame seg"
    by (simp_all add: order_inv_def)
  have order: "sorted_wrt precedes ?segs
      \<and> (\<forall>seg \<in> set ?segs. js_ge (endTime seg) (startTime seg) \<and> endTime seg \<noteq> startTime seg)"
    if pos: "0 < rate"
  proof -
    from tim pos have timed: "\<forall>seg \<in> set ?segs. timed rate seg"
      by (simp add: time_inv_def)
    have "sorted_wrt precedes ?segs"
      using sorted
    proof (rule sorted_wrt_mono_rel [rotated])
      show "precedes s t" if "s \<in> set ?segs" "t \<in> set ?segs" "endFrame s \<le> startFrame t" for s t
        using timed_precedes [OF pos _ _ that(3)] timed that(1,2) by blast
    qed
    moreover have "\<forall>seg \<in> set ?segs. js_ge (endTime seg) (startTime seg) \<and> endTime seg \<noteq> startTime seg"
      using timed nonempty timed_nonempty [OF pos] by blast
    ultimately show ?thesis by blast
  qed
  from result count sorted nonempty order show ?thesis by metis
qed

theorem segments_are_speech_runs_witness:
  "(0 :: nat) < 16000 \<and>
   (\<exists>r. processAudioWithVAD
           (\<lambda>i frame. Inr \<lparr> FrameResult.probability = Num 1, isSpeech = (i \<noteq> 1) \<rparr>)
           (replicate 768 0) 16000 = Inr r
        \<and> length (segments r) = 2
        \<and> sorted_wrt precedes (segments r))"
proof -
  let ?c = "\<lambda>(i :: nat) (frame :: int16 list).
              Inr \<lparr> FrameResult.probability = Num 1, isSpeech = (i \<noteq> 1) \<rparr> :: error + FrameResult"
  have n: "length (replicate 768 (0 :: int16)) div HOP_SIZE = Suc (Suc (Suc 0))"
    by (simp add: HOP_SIZE_def)
  have flags: "map FrameResult.isSpeech (frameResults ?c (replicate 768 0) (Suc (Suc (Suc 0))))
                 = [True, False, True]"
    by (simp add: frameResults_Suc frameResults_0)
  have runs: "speech_runs [True, False, True] = 2"
    by (simp add: speech_runs_def run_start_def upt_rec)
  from segments_are_speech_runs [of ?c "replicate 768 0" 16000]
  show ?thesis
    unfolding n flags runs by auto
qed

subsection \<open>The probability of a segment\<close>

lemma frameBody_extends:
  assumes "i < length audioData div HOP_SIZE"
    and "classify i (frameAt audioData i) = Inr \<lparr> FrameResult.probability = p, isSpeech = True \<rparr>"
  shows "\<exists>seg'. frameBody classify audioData rate i (sf, tp, segs, Some seg)
                  = Inr (sf + 1, js_add tp p, segs, Some seg')
               \<and> probability seg' = js_div (js_add (probability seg) p) (Num 2)"
  by (simp add: frameBody_full [OF assms(1)] assms(2))

lemma frameBody_opens:
  assumes "i < length audioData div HOP_SIZE"
    and "classify i (frameAt audioData i) = Inr \<lparr> FrameResult.probability = p, isSpeech = True \<rparr>"
  shows "\<exists>seg'. frameBody classify audioData rate i (sf, tp, segs, None)
                  = Inr (sf + 1, js_add tp p, segs, Some seg')
               \<and> probability seg' = p"
  by (simp add: frameBody_full [OF assms(1)] assms(2))

lemma ema_inv_step:
  assumes "j < length audioData div HOP_SIZE" and "length ps = length audioData div HOP_SIZE"
    and "classify j (frameAt audioData j) = Inr \<lparr> FrameResult.probability = ps ! j, isSpeech = True \<rparr>"
    and "ema_inv ps j l"
  shows "\<exists>l'. frameBody classify audioData rate j l = Inr l' \<and> ema_inv ps (Suc j) l'"
proof -
  obtain sf tp segs cur where l: "l = (sf, tp, segs, cur)" by (cases l) auto
  from assms(1,2) have j: "j < length ps" by simp
  show ?thesis
  proof (cases "j = 0")
    case True
    with assms(4) have "cur = None" "segs = []" by (simp_all add: l ema_inv_def)
    moreover from j True have "ps ! j = hd ps" "tl (take (Suc 0) ps) = []"
      by (cases ps; simp)+
    ultimately show ?thesis
      using frameBody_opens [of j audioData classify "ps ! j", OF assms(1) assms(3), of rate sf tp segs] True
      by (auto simp add: l ema_inv_def)
  next
    case False
    with assms(4) obtain seg where cur: "cur = Some seg" "segs = []"
      and p: "probability seg = foldl (\<lambda>a p. js_div (js_add a p) (Num 2)) (hd ps) (tl (take j ps))"
      by (auto simp add: l ema_inv_def)
    from j False have "take j ps \<noteq> []" by auto
    then have "tl (take (Suc j) ps) = tl (take j ps) @ [ps ! j]"
      using j by (simp add: take_Suc_conv_app_nth)
    with p show ?thesis
      using frameBody_extends [of j audioData classify "ps ! j", OF assms(1) assms(3), of rate sf tp segs seg]
      by (auto simp add: l cur ema_inv_def)
  qed
qed

lemma frameLoop_probabilities:
  assumes "n \<le> length audioData div HOP_SIZE"
  shows "\<exists>sf' tp' segs' cur'.
           frameLoop classify audioData rate n i (sf, tp, segs, cur) = Inr (sf', tp', segs', cur')
           \<and> map probability (segs' @ openSegment cur')
               = map probability segs
                 @ pendingProbabilities (map_option probability cur)
                     (successes (map (\<lambda>j. classify j (frameAt audioData j)) [i..<n]))"
proof (induction "n - i" arbitrary: i sf tp segs cur)
  case 0
  then have "n \<le> i" by simp
  then show ?case
    by (subst frameLoop.simps) (cases cur; simp add: openSegment_def)
next
  case (Suc k)
  then have lt: "i < n" and k: "k = n - Suc i" by simp_all
  with assms have full: "i < length audioData div HOP_SIZE" by simp
  from lt have upt: "[i..<n] = i # [Suc i..<n]" by (rule upt_conv_Cons)
  let ?rest = "successes (map (\<lambda>j. classify j (frameAt audioData j)) [Suc i..<n])"
  note IH = Suc.hyps(1) [OF k]
  show ?case
  proof (cases "classify i (frameAt audioData i)")
    case (Inl e)
    from IH [of sf tp segs cur] lt show ?thesis
      by (subst frameLoop.simps) (simp add: frameBody_full [OF full] Inl upt)
  next
    case (Inr r)
    show ?thesis
    proof (cases "FrameResult.isSpeech r")
      case True
      show ?thesis
      proof (cases cur)
        case None
        from IH [of "sf + 1" "js_add tp (FrameResult.probability r)" segs
            "Some \<lparr> startFrame = i * HOP_SIZE, endFrame = i * HOP_SIZE + HOP_SIZE,
                    startTime = js_div (Num (real (i * HOP_SIZE))) (Num (real rate)),
                    endTime = js_add (js_div (Num (real (i * HOP_SIZE))) (Num (real rate)))
                                (js_div (Num (real HOP_SIZE)) (Num (real rate))),
                    data = frameAt audioData i, isSpeech = True,
                    probability = FrameResult.probability r \<rparr>"] lt
        show ?thesis
          by (subst frameLoop.simps) (simp add: frameBody_full [OF full] Inr True None upt)
      next
        case (Some seg)
        from IH [of "sf + 1" "js_add tp (FrameResult.probability r)" segs
            "Some (seg \<lparr> endFrame := i * HOP_SIZE + HOP_SIZE,
                    endTime := js_add (js_div (Num (real (i * HOP_SIZE))) (Num (real rate)))
                                (js_div (Num (real HOP_SIZE)) (Num (real rate))),
                    data := data seg @ frameAt audioData i,
                    probability := js_div (js_add (probability seg) (FrameResult.probability r))
                                     (Num 2) \<rparr>)"] lt
        show ?thesis
          by (subst frameLoop.simps) (simp add: frameBody_full [OF full] Inr True Some upt)
      qed
    next
      case False
      show ?thesis
      proof (cases cur)
        case None
        from IH [of sf "js_add tp (FrameResult.probability r)" segs None] lt
        show ?thesis
          by (subst frameLoop.simps) (simp add: frameBody_full [OF full] Inr False None upt)
      next
        case (Some seg)
        from IH [of sf "js_add tp (FrameResult.probability r)" "segs @ [seg]" None] lt
        show ?thesis
          by (subst frameLoop.simps) (simp add: frameBody_full [OF full] Inr False Some upt)
      qed
    qed
  qed
qed


lemma segment_probabilities:
  "\<exists>r. processAudioWithVAD classify audioData rate = Inr r
       \<and> map probability (segments r)
           = map emaFold (speechRuns (frameResults classify audioData
                                        (length audioData div HOP_SIZE)))"
proof -
  let ?n = "length audioData div HOP_SIZE"
  from frameLoop_probabilities [of ?n audioData classify rate 0 0 "Num 0" "[]" None]
  obtain sf tp segs cur where
    loop: "frameLoop classify audioData rate ?n 0 (0, Num 0, [], None) = Inr (sf, tp, segs, cur)"
    and probs: "map probability (segs @ openSegment cur)
                  = map emaFold (speechRuns (frameResults classify audioData ?n))"
    by (auto simp add: frameResults_def)
  have "\<exists>r. processAudioWithVAD classify audioData rate = Inr r
           \<and> segments r = segs @ openSegment cur"
    unfolding processAudioWithVAD_def Let_def loop andThen_Inr prod.case
    by (simp add: openSegment_def split: option.splits)
  with probs show ?thesis by auto
qed

text \<open>
  C5. Extending an open segment by a speech frame of probability \<open>p\<close> sets the stored
  probability to \<open>(oldProbability + p) / 2\<close>. Hence an input whose frames are all classified as
  speech, with probabilities \<open>p0, p1, ..., pn\<close>, yields one segment whose probability is the
  left fold of \<open>(a + p) / 2\<close> over \<open>p1, ..., pn\<close> starting from \<open>p0\<close>. In general, for every
  classifier and input, the segments returned are in one-to-one correspondence, in order,
  with the maximal runs of speech results, and the probability of each is that fold over the
  probabilities of its own run, starting from the probability of the frame that opened it.
  This is an exponential moving average and not the running mean: for the probabilities
  0, 0, 1 the fold gives \<open>1/2\<close>, the mean is \<open>1/3\<close>.
\<close>

theorem segment_probability_is_ema:
  "(\<forall>i p sf tp segs seg.
      i < length audioData div HOP_SIZE \<and>
      classify i (frameAt audioData i) = Inr \<lparr> FrameResult.probability = p, isSpeech = True \<rparr>
      \<longrightarrow> (\<exists>seg'. frameBody classify audioData rate i (sf, tp, segs, Some seg)
                      = Inr (sf + 1, js_add tp p, segs, Some seg')
                  \<and> probability seg' = js_div (js_add (probability seg) p) (Num 2)))
   \<and> (ps \<noteq> [] \<and> length ps = length audioData div HOP_SIZE \<and>
      (\<forall>i < length ps. classify i (frameAt audioData i)
                         = Inr \<lparr> FrameResult.probability = ps ! i, isSpeech = True \<rparr>)
      \<longrightarrow> (\<exists>r seg. processAudioWithVAD classify audioData rate = Inr r
                  \<and> segments r = [seg]
                  \<and> probability seg
                      = foldl (\<lambda>a p. js_div (js_add a p) (Num 2)) (hd ps) (tl ps)))
   \<and> (\<exists>r. processAudioWithVAD classify audioData rate = Inr r
          \<and> map probability (segments r)
              = map emaFold (speechRuns (frameResults classify audioData
                                           (length audioData div HOP_SIZE))))
   \<and> foldl (\<lambda>a p. js_div (js_add a p) (Num 2)) (Num 0) [Num 0, Num 1] = Num (1 / 2)
   \<and> Num (1 / 2) \<noteq> Num ((0 + 0 + 1) / 3)"
proof -
  let ?n = "length audioData div HOP_SIZE"
  have fold: "\<exists>r seg. processAudioWithVAD classify audioData rate = Inr r
                  \<and> segments r = [seg]
                  \<and> probability seg
                      = foldl (\<lambda>a p. js_div (js_add a p) (Num 2)) (hd ps) (tl ps)"
    if ne: "ps \<noteq> []" and len: "length ps = ?n"
      and all: "\<forall>i < length ps. classify i (frameAt audioData i)
                         = Inr \<lparr> FrameResult.probability = ps ! i, isSpeech = True \<rparr>"
  proof -
    have "\<exists>l'. frameLoop classify audioData rate ?n 0 (0, Num 0, [], None) = Inr l' \<and> ema_inv ps ?n l'"
    proof (rule frameLoop_invariant [where I = "ema_inv ps"])
      show "ema_inv ps 0 (0, Num 0, [], None)" by (simp add: ema_inv_def)
      show "0 \<le> ?n" by simp
      show "\<exists>l'. frameBody classify audioData rate j l = Inr l' \<and> ema_inv ps (Suc j) l'"
        if "0 \<le> j" "j < ?n" "ema_inv ps j l" for j l
        using ema_inv_step [OF that(2) len _ that(3)] all that(2) len by simp
    qed
    then obtain sf tp segs cur where
      loop: "frameLoop classify audioData rate ?n 0 (0, Num 0, [], None) = Inr (sf, tp, segs, cur)"
      and inv: "ema_inv ps ?n (sf, tp, segs, cur)"
      by (metis prod_cases4)
    from ne have "length ps \<noteq> 0" by simp
    with len have "?n \<noteq> 0" by metis
    with inv len obtain seg where "segs = []" "cur = Some seg"
      "probability seg = foldl (\<lambda>a p. js_div (js_add a p) (Num 2)) (hd ps) (tl ps)"
      by (auto simp add: ema_inv_def)
    then show ?thesis
      unfolding processAudioWithVAD_def Let_def loop andThen_Inr prod.case
      by simp
  qed
  have step: "\<exists>seg'. frameBody classify audioData rate i (sf, tp, segs, Some seg)
                      = Inr (sf + 1, js_add tp p, segs, Some seg')
                  \<and> probability seg' = js_div (js_add (probability seg) p) (Num 2)"
    if "i < ?n \<and> classify i (frameAt audioData i)
                   = Inr \<lparr> FrameResult.probability = p, isSpeech = True \<rparr>"
    for i p sf tp segs seg
    using that frameBody_extends [of i audioData classify p rate sf tp segs seg] by blast
  have example: "foldl (\<lambda>a p. js_div (js_add a p) (Num 2)) (Num 0) [Num 0, Num 1] = Num (1 / 2)"
    "Num (1 / 2) \<noteq> Num ((0 + 0 + 1) / 3)"
    by simp_all
  from step fold example segment_probabilities [of classify audioData rate] show ?thesis
    by (intro conjI allI impI) blast+
qed


theorem segment_probability_is_ema_witness:
  "(\<exists>seg'. frameBody
             (\<lambda>i frame. Inr \<lparr> FrameResult.probability = [Num 0, Num 0, Num 1] ! i, isSpeech = True \<rparr>)
             (replicate 768 0) 16000 1
             (1, Num 0, [],
              Some \<lparr> startFrame = 0, endFrame = 256, startTime = Num 0, endTime = Num (2 / 125),
                     data = replicate 256 0, isSpeech = True, probability = Num 1 \<rparr>)
           = Inr (2, Num 0, [], Some seg')
         \<and> probability seg' = Num (1 / 2))
   \<and> (\<exists>r seg. processAudioWithVAD
                 (\<lambda>i frame. Inr \<lparr> FrameResult.probability = [Num 0, Num 0, Num 1] ! i, isSpeech = True \<rparr>)
                 (replicate 768 0) 16000 = Inr r
             \<and> segments r = [seg] \<and> probability seg = Num (1 / 2))
   \<and> (\<exists>r. processAudioWithVAD
             (\<lambda>i frame. Inr \<lparr> FrameResult.probability = [Num (1 / 2), Num (1 / 4), Num (3 / 4)] ! i,
                               isSpeech = (i \<noteq> 0) \<rparr>)
             (replicate 768 0) 16000 = Inr r
          \<and> map probability (segments r) = [Num (1 / 2)])"
proof -
  let ?c = "\<lambda>(i :: nat) (frame :: int16 list).
              Inr \<lparr> FrameResult.probability = [Num 0, Num 0, Num 1] ! i, isSpeech = True \<rparr>
              :: error + FrameResult"
  let ?late = "\<lambda>(i :: nat) (frame :: int16 list).
              Inr \<lparr> FrameResult.probability = [Num (1 / 2), Num (1 / 4), Num (3 / 4)] ! i,
                     isSpeech = (i \<noteq> 0) \<rparr> :: error + FrameResult"
  have n: "length (replicate 768 (0 :: int16)) div HOP_SIZE = Suc (Suc (Suc 0))"
    by (simp add: HOP_SIZE_def)
  have results: "frameResults ?late (replicate 768 0) (Suc (Suc (Suc 0)))
                   = [\<lparr> FrameResult.probability = Num (1 / 2), isSpeech = False \<rparr>,
                      \<lparr> FrameResult.probability = Num (1 / 4), isSpeech = True \<rparr>,
                      \<lparr> FrameResult.probability = Num (3 / 4), isSpeech = True \<rparr>]"
    by (simp add: frameResults_Suc frameResults_0)
  have late: "\<exists>r. processAudioWithVAD ?late (replicate 768 0) 16000 = Inr r
          \<and> map probability (segments r) = [Num (1 / 2)]"
    using segment_probability_is_ema [where classify = ?late and audioData = "replicate 768 0"
      and rate = 16000 and ps = "[]", THEN conjunct2, THEN conjunct2, THEN conjunct1]
    unfolding n results by simp
  let ?seg = "\<lparr> startFrame = 0, endFrame = 256, startTime = Num 0, endTime = Num (2 / 125),
                data = replicate 256 0, isSpeech = True, probability = Num 1 \<rparr>"
  note T = segment_probability_is_ema [where classify = ?c and audioData = "replicate 768 0"
      and rate = 16000 and ps = "[Num 0, Num 0, Num 1]"]
  have "\<exists>seg'. frameBody ?c (replicate 768 0) 16000 1 (1, Num 0, [], Some ?seg)
                  = Inr (1 + 1, js_add (Num 0) (Num 0), [], Some seg')
               \<and> probability seg' = js_div (js_add (probability ?seg) (Num 0)) (Num 2)"
    by (rule T [THEN conjunct1, rule_format]) (simp add: HOP_SIZE_def)
  moreover have "\<exists>r seg. processAudioWithVAD ?c (replicate 768 0) 16000 = Inr r
             \<and> segments r = [seg]
             \<and> probability seg = foldl (\<lambda>a p. js_div (js_add a p) (Num 2))
                                   (hd [Num 0, Num 0, Num 1]) (tl [Num 0, Num 0, Num 1])"
    by (rule T [THEN conjunct2, THEN conjunct1, rule_format]) (simp add: HOP_SIZE_def)
  ultimately show ?thesis using late by (simp add: numeral_2_eq_2)
qed

subsection \<open>The final partial frame\<close>

text \<open>
  C3 requires that for a sample count that is not a multiple of 256 the trailing samples are
  zero-padded to a frame of 256 and passed to the classifier. The code does not do so. Take
  300 samples, 256 ones followed by 44 sevens: padded with 212 zeros, the trailing 44 are a
  frame on which the stand-in classifier reports speech, yet the result counts one frame and
  no speech, since \<open>frameCount = floor(300 / 256) = 1\<close> ends the loop before the partial
  frame. Had the loop body been run for frame 1, its padding block would have thrown: the
  second \<^verbatim>\<open>set\<close> copies the 256 padded samples into the 44-sample frame.
\<close>

theorem partial_frame_not_classified:
  "length (replicate 256 1 @ replicate 44 (7 :: int16)) mod 256 = 44
   \<and> sevenDetector 1 (replicate 44 7 @ replicate 212 0)
       = Inr \<lparr> FrameResult.probability = Num 1, isSpeech = True \<rparr>
   \<and> processAudioWithVAD sevenDetector (replicate 256 1 @ replicate 44 7) 16000
       = Inr \<lparr> totalFrames = 1, speechFrames = 0, speechPercentage = Num 0,
               hasSpeech = False, avgProbability = Num 1, segments = [] \<rparr>
   \<and> frameBody sevenDetector (replicate 256 1 @ replicate 44 7) 16000 1 (0, Num 1, [], None)
       = Inl RangeError"
  by (simp add: sevenDetector_def processAudioWithVAD_def HOP_SIZE_def frameLoop.simps
        frameBody_def slice_def typedSet_def Let_def)

section \<open>Segment filter\<close>

text \<open>
  C6. \<^verbatim>\<open>filterSpeechSegments\<close> keeps the segment at a position of the input exactly when that
  segment has \<open>isSpeech\<close> set, \<open>(endTime - startTime) * 1000 >= minDurationMs\<close> and
  \<open>probability >= minProbability\<close>; the kept segments stand in the order of their positions
  in the input (\<open>nths\<close> selects the elements at a set of positions, in list order).
\<close>

theorem filterSpeechSegments_keeps_iff:
  "filterSpeechSegments segs minDurationMs minProbability =
     nths segs {i. i < length segs
                  \<and> isSpeech (segs ! i)
                  \<and> js_ge (js_mul (js_sub (endTime (segs ! i)) (startTime (segs ! i))) (Num 1000))
                           minDurationMs
                  \<and> js_ge (probability (segs ! i)) minProbability}"
  by (simp add: filterSpeechSegments_def filter_eq_nths)

text \<open>
  C7. Filtering is idempotent: a second pass with the same thresholds changes nothing.
\<close>

theorem filterSpeechSegments_idempotent:
  "filterSpeechSegments (filterSpeechSegments S d p) d p = filterSpeechSegments S d p"
  by (simp add: filterSpeechSegments_def)

section \<open>Merging and the pipeline\<close>

lemma total_length: "foldl (\<lambda>sum segment. sum + length (data segment)) k segs
                       = k + length (concat (map data segs))"
  by (induction segs arbitrary: k) simp_all

lemma mergeLoop_concat:
  "offset + length (concat (map data segs)) \<le> length merged \<Longrightarrow>
   mergeLoop segs merged offset =
     Inr (take offset merged @ concat (map data segs)
          @ drop (offset + length (concat (map data segs))) merged)"
proof (induction segs arbitrary: merged offset)
  case Nil
  then show ?case by simp
next
  case (Cons seg segs)
  let ?m = "take offset merged @ data seg @ drop (offset + length (data seg)) merged"
  from Cons.prems have fit: "offset + length (data seg) \<le> length merged" by simp
  then have written: "typedSet merged (data seg) offset = Inr ?m"
    by (simp add: typedSet_def)
  from Cons.prems have "offset + length (data seg) + length (concat (map data segs)) \<le> length ?m"
    by simp
  from Cons.IH [OF this] fit show ?case
    by (simp add: written add.assoc add.commute add.left_commute)
qed

lemma mergeAudioSegments_concat: "mergeAudioSegments segs = Inr (concat (map data segs))"
proof (cases "segs = []")
  case True
  then show ?thesis by (simp add: mergeAudioSegments_def)
next
  case False
  then show ?thesis
    using mergeLoop_concat [of 0 segs "replicate (length (concat (map data segs))) 0"]
    by (simp add: mergeAudioSegments_def total_length)
qed

lemma processAudioWithVAD_returns: "\<exists>r. processAudioWithVAD classify audioData rate = Inr r"
proof -
  obtain sf tp segs cur where
    "frameLoop classify audioData rate (length audioData div HOP_SIZE) 0 (0, Num 0, [], None)
       = Inr (sf, tp, segs, cur)"
    using frameLoop_counts by blast
  then show ?thesis
    by (simp add: processAudioWithVAD_def Let_def)
qed

text \<open>
  C9. \<^verbatim>\<open>mergeAudioSegments\<close> returns the empty buffer for the empty list, and in general the
  concatenation of the segments' samples in list order, whose length is the sum of their
  lengths. In \<^verbatim>\<open>extractSpeechSegments\<close>, once the container is parsed and its samples are
  extracted, an empty filtered list gives a result, not an exception: \<open>speechFound = false\<close>
  with the original buffer as \<open>processedBuffer\<close>; a non-empty one gives \<open>speechFound = true\<close>
  with the container of the merged samples.
\<close>

theorem merge_and_no_speech_outcome:
  "mergeAudioSegments [] = Inr []
   \<and> mergeAudioSegments segs = Inr (concat (map data segs))
   \<and> length (concat (map data segs)) = sum_list (map (\<lambda>seg. length (data seg)) segs)
   \<and> (parseWAVHeader buffer = Inr wavInfo \<and> extractMonoAudio buffer wavInfo = Inr samples \<longrightarrow>
        (\<exists>vad. processAudioWithVAD classify samples (sampleRate wavInfo) = Inr vad \<and>
           extractSpeechSegments classify buffer minDurationMs minProbability =
             (let filtered = filterSpeechSegments (segments vad) minDurationMs minProbability
              in if filtered = [] then
                   Inr \<lparr> originalBuffer = buffer, processedBuffer = buffer,
                         vadResult = vad, speechFound = False \<rparr>
                 else
                   Inr \<lparr> originalBuffer = buffer,
                         processedBuffer = createWAVBuffer (concat (map data filtered))
                                             (sampleRate wavInfo) 1,
                         vadResult = vad, speechFound = True \<rparr>)))"
proof -
  have pipeline: "\<exists>vad. processAudioWithVAD classify samples (sampleRate wavInfo) = Inr vad \<and>
           extractSpeechSegments classify buffer minDurationMs minProbability =
             (let filtered = filterSpeechSegments (segments vad) minDurationMs minProbability
              in if filtered = [] then
                   Inr \<lparr> originalBuffer = buffer, processedBuffer = buffer,
                         vadResult = vad, speechFound = False \<rparr>
                 else
                   Inr \<lparr> originalBuffer = buffer,
                         processedBuffer = createWAVBuffer (concat (map data filtered))
                                             (sampleRate wavInfo) 1,
                         vadResult = vad, speechFound = True \<rparr>)"
    if "parseWAVHeader buffer = Inr wavInfo" and "extractMonoAudio buffer wavInfo = Inr samples"
  proof -
    obtain vad where vad: "processAudioWithVAD classify samples (sampleRate wavInfo) = Inr vad"
      using processAudioWithVAD_returns by blast
    show ?thesis
      using that vad
      by (simp add: extractSpeechSegments_def Let_def mergeAudioSegments_concat)
  qed
  have "length (concat (map data segs)) = sum_list (map (\<lambda>seg. length (data seg)) segs)"
    by (simp add: length_concat comp_def)
  with pipeline show ?thesis
    by (simp add: mergeAudioSegments_concat)
qed


lemma extractMonoAudio_create:
  assumes "xs \<noteq> []" and "length xs < 2 ^ 31"
    and "parseWAVHeader (createWAVBuffer xs rate 1) = Inr h"
  shows "extractMonoAudio (createWAVBuffer xs rate 1) h = Inr xs"
proof -
  from assms(2) have "(2 * length xs) mod 4294967296 = 2 * length xs" by simp
  with decodeWAV_create [OF assms(1), of rate] assms(3) show ?thesis
    by (simp add: decodeWAV_def newInt16Array_def length_sample_bytes int16s_concat)
qed

theorem merge_and_no_speech_outcome_witness:
  "(\<exists>r. extractSpeechSegments (\<lambda>i frame. Inl VADError)
           (createWAVBuffer [1, 2] 16000 1) (Num 200) (Num (2 / 5)) = Inr r
        \<and> \<not> speechFound r
        \<and> processedBuffer r = createWAVBuffer [1, 2] 16000 1)
   \<and> (\<exists>r. extractSpeechSegments
             (\<lambda>i frame. Inr \<lparr> FrameResult.probability = Num 1, isSpeech = True \<rparr>)
             (createWAVBuffer (replicate 256 1) 16000 1) (Num 10) (Num (2 / 5)) = Inr r
          \<and> speechFound r
          \<and> processedBuffer r = createWAVBuffer (replicate 256 1) 16000 1)"
proof -
  let ?quiet = "\<lambda>(i :: nat) (frame :: int16 list). Inl VADError :: error + FrameResult"
  let ?loud = "\<lambda>(i :: nat) (frame :: int16 list).
                 Inr \<lparr> FrameResult.probability = Num 1, isSpeech = True \<rparr> :: error + FrameResult"
  let ?A = "createWAVBuffer [1, 2] 16000 1"
  let ?B = "createWAVBuffer (replicate 256 1) 16000 1"
  obtain hA where hA: "parseWAVHeader ?A = Inr hA" "sampleRate hA = 16000"
    using parseWAVHeader_create [of "[1, 2]" 16000] by auto
  have xA: "extractMonoAudio ?A hA = Inr [1, 2]"
    by (rule extractMonoAudio_create [OF _ _ hA(1)]) simp_all
  obtain hB where hB: "parseWAVHeader ?B = Inr hB" "sampleRate hB = 16000"
    using parseWAVHeader_create [of "replicate 256 1" 16000] by auto
  have xB: "extractMonoAudio ?B hB = Inr (replicate 256 1)"
    by (rule extractMonoAudio_create [OF _ _ hB(1)]) simp_all
  have vA: "processAudioWithVAD ?quiet [1, 2] 16000 =
              Inr \<lparr> totalFrames = 0, speechFrames = 0, speechPercentage = Num 0,
                    hasSpeech = False, avgProbability = Num 0, segments = [] \<rparr>"
    by (simp add: processAudioWithVAD_def HOP_SIZE_def frameLoop.simps)
  have vB: "processAudioWithVAD ?loud (replicate 256 1) 16000 =
              Inr \<lparr> totalFrames = 1, speechFrames = 1, speechPercentage = Num 100,
                    hasSpeech = True, avgProbability = Num 1,
                    segments = [\<lparr> startFrame = 0, endFrame = 256, startTime = Num 0,
                                  endTime = Num (2 / 125), data = replicate 256 1,
                                  isSpeech = True, probability = Num 1 \<rparr>] \<rparr>"
    by (simp add: processAudioWithVAD_def HOP_SIZE_def frameLoop.simps frameBody_def slice_def
          Let_def)
  from merge_and_no_speech_outcome [where buffer = ?A and wavInfo = hA and samples = "[1, 2]"
      and classify = ?quiet and minDurationMs = "Num 200" and minProbability = "Num (2 / 5)"
      and segs = "[]"] hA xA vA
  have "extractSpeechSegments ?quiet ?A (Num 200) (Num (2 / 5)) =
          Inr \<lparr> originalBuffer = ?A, processedBuffer = ?A,
                vadResult = \<lparr> totalFrames = 0, speechFrames = 0, speechPercentage = Num 0,
                    hasSpeech = False, avgProbability = Num 0, segments = [] \<rparr>,
                speechFound = False \<rparr>"
    by (auto simp add: filterSpeechSegments_def)
  moreover
  from merge_and_no_speech_outcome [where buffer = ?B and wavInfo = hB
      and samples = "replicate 256 1"
      and classify = ?loud and minDurationMs = "Num 10" and minProbability = "Num (2 / 5)"
      and segs = "[]"] hB xB vB
  have "\<exists>r. extractSpeechSegments ?loud ?B (Num 10) (Num (2 / 5)) = Inr r
          \<and> speechFound r \<and> processedBuffer r = ?B"
    by (auto simp add: filterSpeechSegments_def js_sub_def)
  ultimately show ?thesis by simp
qed

end
